theory Spec2Isabelle
  imports Main "HOL-Library.Multiset" "HOL-Library.Product_Lexorder" "HOL-Library.Char_ord"
    "HOL-Library.List_Lexorder"
begin

section \<open>Data model\<close>

text \<open>
  The script \<^verbatim>\<open>Testingdata.py\<close> reads monthly popularity exports with pandas, cleans
  each one (\<^verbatim>\<open>load_trends_csv\<close>), joins them on their \<^verbatim>\<open>Time\<close> column, checks
  the calendar of the result and writes a wide and a long table.

  A field of a CSV file, as \<^verbatim>\<open>pd.read_csv\<close> hands it over, is either empty (NaN) or a
  token of text. The pandas parsers the script applies to a token are library code; a
  token is represented by what they make of it:
  \<^item> the date format pandas guesses from the token when it is the first entry of its
    column (\<open>None\<close>: no format can be guessed);
  \<^item> the date the token reads as under a given format (\<open>None\<close>: it does not match);
  \<^item> the date the token reads as by itself, without a format (\<open>None\<close>: not a date);
  \<^item> the number \<^verbatim>\<open>pd.to_numeric\<close> reads (\<open>None\<close>: not a number).
  Numbers are never computed with, so their type \<open>'v\<close> stays a parameter; a missing value
  (NaN) is \<open>None\<close>.
\<close>

type_synonym format = string

datatype ('t, 'v) cell =
    Blank
  | Token "format option" "format \<Rightarrow> 't option" "'t option" "'v option"

text \<open>A raw data frame: its columns in file order, each a header and the fields below it
  (all columns of a data frame have the same number of fields).\<close>

type_synonym ('t, 'v) raw_frame = "(string \<times> ('t, 'v) cell list) list"

text \<open>A row of a frame with a \<^verbatim>\<open>Time\<close> column: index label, timestamp, and the values of
  the other columns in column order.\<close>

type_synonym ('t, 'a) row = "nat \<times> 't \<times> 'a"

record ('t, 'v) frame =
  labels :: "string list"
  body :: "('t, 'v option list) row list"

definition timestamps :: "('t, 'v) frame \<Rightarrow> 't list" where
  "timestamps f = map (\<lambda>(i, t, vs). t) (body f)"

definition columns :: "('t, 'v) frame \<Rightarrow> string list" where
  "columns f = ''Time'' # labels f"

datatype error =
    InsufficientInputFiles nat nat "string list"
  | MissingTimeColumn string "string list"
  | AmbiguousValueColumn string "string list"
  | TimestampParseError string
  | ValueColumnTypeError string
  | IndexError
  | MergeError
  | NaTRangeError
  | MeltValueNameError
  | DuplicateEntries

section \<open>Python string operations (ASCII)\<close>

definition is_space :: "char \<Rightarrow> bool" where
  "is_space c = (c \<in> set [CHR 0x09, CHR 0x0A, CHR 0x0B, CHR 0x0C, CHR 0x0D,
                            CHR 0x1C, CHR 0x1D, CHR 0x1E, CHR 0x1F, CHR 0x20])"

definition is_lower :: "char \<Rightarrow> bool" where
  "is_lower c = (97 \<le> (of_char c :: nat) \<and> (of_char c :: nat) \<le> 122)"

definition is_upper :: "char \<Rightarrow> bool" where
  "is_upper c = (65 \<le> (of_char c :: nat) \<and> (of_char c :: nat) \<le> 90)"

definition to_upper :: "char \<Rightarrow> char" where
  "to_upper c = char_of ((of_char c :: nat) - 32)"

definition to_lower :: "char \<Rightarrow> char" where
  "to_lower c = char_of ((of_char c :: nat) + 32)"

definition strip :: "string \<Rightarrow> string" where
  "strip s = rev (dropWhile is_space (rev (dropWhile is_space s)))"

text \<open>\<^verbatim>\<open>s.split()\<close>: the maximal runs of non-space characters; \<open>w\<close> is the run being
  read, reversed.\<close>

fun split_from :: "string \<Rightarrow> string \<Rightarrow> string list" where
  "split_from w [] = (if w = [] then [] else [rev w])"
| "split_from w (c # cs) =
     (if is_space c then (if w = [] then split_from [] cs else rev w # split_from [] cs)
      else split_from (c # w) cs)"

definition split :: "string \<Rightarrow> string list" where
  "split s = split_from [] s"

fun join_space :: "string list \<Rightarrow> string" where
  "join_space [] = []"
| "join_space [w] = w"
| "join_space (w # ws) = w @ CHR '' '' # join_space ws"

text \<open>\<^verbatim>\<open>s.title()\<close>: a letter that follows a letter is lowered, any other letter is
  raised; \<open>prev\<close> says whether the previous character was a letter.\<close>

fun title_from :: "bool \<Rightarrow> string \<Rightarrow> string" where
  "title_from prev [] = []"
| "title_from prev (c # cs) =
     (if is_lower c then (if prev then c else to_upper c) # title_from True cs
      else if is_upper c then (if prev then to_lower c else c) # title_from True cs
      else c # title_from False cs)"

definition title :: "string \<Rightarrow> string" where
  "title s = title_from False s"

section \<open>Loading one export: \<^verbatim>\<open>load_trends_csv\<close>\<close>

definition row_time :: "('t, 'a) row \<Rightarrow> 't" where
  "row_time r = fst (snd r)"

text \<open>A fresh \<^verbatim>\<open>RangeIndex\<close>: the rows numbered from zero.\<close>

definition range_index :: "'a list \<Rightarrow> (nat \<times> 'a) list" where
  "range_index xs = zip [0..<length xs] xs"

text \<open>
  \<^verbatim>\<open>pd.to_datetime(column)\<close> with its defaults (no format, \<^verbatim>\<open>errors="raise"\<close>), as
  pandas 2 does it. The format is guessed from the first entry that is not empty, and
  every entry is then read under that format; when no format can be guessed, every entry
  is read by itself. An empty entry becomes NaT; an entry that cannot be read raises (the
  result \<open>None\<close>), also a date written in another format than the guessed one.
\<close>

fun is_blank :: "('t, 'v) cell \<Rightarrow> bool" where
  "is_blank Blank = True"
| "is_blank (Token g p d n) = False"

fun first_non_null :: "('t, 'v) cell list \<Rightarrow> ('t, 'v) cell option" where
  "first_non_null [] = None"
| "first_non_null (Blank # xs) = first_non_null xs"
| "first_non_null (Token g p d n # xs) = Some (Token g p d n)"

fun guess_datetime_format :: "('t, 'v) cell option \<Rightarrow> format option" where
  "guess_datetime_format None = None"
| "guess_datetime_format (Some Blank) = None"
| "guess_datetime_format (Some (Token g p d n)) = g"

fun parse_entry :: "format option \<Rightarrow> ('t, 'v) cell \<Rightarrow> 't option" where
  "parse_entry fmt Blank = None"
| "parse_entry (Some f) (Token g p d n) = p f"
| "parse_entry None (Token g p d n) = d"

definition to_datetime :: "('t, 'v) cell list \<Rightarrow> 't option list option" where
  "to_datetime xs =
     (let fmt = guess_datetime_format (first_non_null xs)
      in if list_ex (\<lambda>x. \<not> is_blank x \<and> parse_entry fmt x = None) xs then None
         else Some (map (parse_entry fmt) xs))"

text \<open>\<^verbatim>\<open>pd.to_numeric(column, errors="coerce")\<close>, field by field: what is not a number
  becomes NaN.\<close>

fun to_numeric :: "('t, 'v) cell \<Rightarrow> 'v option" where
  "to_numeric Blank = None"
| "to_numeric (Token g p d n) = n"

text \<open>\<^verbatim>\<open>df.dropna(subset=["Time"])\<close>: rows without a timestamp go, the others keep their
  index label.\<close>

fun dropna_time :: "('t option, 'a) row list \<Rightarrow> ('t, 'a) row list" where
  "dropna_time [] = []"
| "dropna_time ((i, None, v) # rs) = dropna_time rs"
| "dropna_time ((i, Some t, v) # rs) = (i, t, v) # dropna_time rs"

text \<open>\<^verbatim>\<open>df.drop_duplicates(subset=["Time"])\<close> (\<^verbatim>\<open>keep="first"\<close>): a row goes when an
  earlier row has its timestamp; \<open>seen\<close> holds the timestamps met so far.\<close>

fun drop_duplicates_from :: "'t list \<Rightarrow> ('t, 'a) row list \<Rightarrow> ('t, 'a) row list" where
  "drop_duplicates_from seen [] = []"
| "drop_duplicates_from seen (r # rs) =
     (if row_time r \<in> set seen then drop_duplicates_from seen rs
      else r # drop_duplicates_from (row_time r # seen) rs)"

definition drop_duplicates_time :: "('t, 'a) row list \<Rightarrow> ('t, 'a) row list" where
  "drop_duplicates_time rs = drop_duplicates_from [] rs"

text \<open>\<^verbatim>\<open>df.sort_values("Time")\<close>. The model sorts stably; pandas' default sort does not
  promise an order among equal timestamps, and the script only sorts frames whose
  timestamps it has made unique.\<close>

definition sort_values_time :: "('t::linorder, 'a) row list \<Rightarrow> ('t, 'a) row list" where
  "sort_values_time rs = sort_key row_time rs"

text \<open>\<^verbatim>\<open>df.reset_index(drop=True)\<close>: the old labels are discarded.\<close>

definition reset_index :: "('t, 'a) row list \<Rightarrow> ('t, 'a) row list" where
  "reset_index rs = range_index (map snd rs)"

text \<open>Line 38 of the script.\<close>

definition canonicalise :: "('t::linorder, 'a) row list \<Rightarrow> ('t, 'a) row list" where
  "canonicalise rs = reset_index (sort_values_time (drop_duplicates_time rs))"

text \<open>\<^verbatim>\<open>df["Time"]\<close> is a column when exactly one header is \<^verbatim>\<open>Time\<close>; when several
  are (headers that differ in surrounding blanks only), it is a frame, which
  \<^verbatim>\<open>pd.to_datetime\<close> refuses.\<close>

fun to_datetime_selection :: "(string \<times> ('t, 'v) cell list) list \<Rightarrow> 't option list option" where
  "to_datetime_selection [(c, xs)] = to_datetime xs"
| "to_datetime_selection sel = None"

text \<open>Line 12: \<^verbatim>\<open>df.columns = df.columns.str.strip()\<close>.\<close>

definition strip_columns :: "('t, 'v) raw_frame \<Rightarrow> ('t, 'v) raw_frame" where
  "strip_columns raw = map (\<lambda>(c, xs). (strip c, xs)) raw"

text \<open>The columns labelled \<^verbatim>\<open>Time\<close>, and the others (\<^verbatim>\<open>value_cols\<close>, with their
  fields).\<close>

definition time_selection :: "('t, 'v) raw_frame \<Rightarrow> ('t, 'v) raw_frame" where
  "time_selection df = filter (\<lambda>(c, xs). c = ''Time'') df"

definition value_selection :: "('t, 'v) raw_frame \<Rightarrow> ('t, 'v) raw_frame" where
  "value_selection df = filter (\<lambda>(c, xs). c \<noteq> ''Time'') df"

text \<open>Lines 27 and 30: \<^verbatim>\<open>" ".join(value_col.strip().split()).title()\<close>.\<close>

definition trend_name_clean :: "string \<Rightarrow> string" where
  "trend_name_clean value_col = title (join_space (split (strip value_col)))"

text \<open>The rows of the frame once both columns are converted, under the index
  \<^verbatim>\<open>pd.read_csv\<close> gave them.\<close>

definition converted_rows ::
    "'t option list \<Rightarrow> ('t, 'v) cell list \<Rightarrow> ('t option, 'v option list) row list" where
  "converted_rows time xs = range_index (zip time (map (\<lambda>x. [to_numeric x]) xs))"

text \<open>
  The function itself. After the rename of line 31 a value column whose cleaned name is
  \<^verbatim>\<open>Time\<close> shares its label with the timestamp column, \<^verbatim>\<open>df["Time"]\<close> is then a
  frame and \<^verbatim>\<open>pd.to_numeric\<close> raises a TypeError on it, whatever the fields hold.
\<close>

definition load_trends_csv :: "string \<Rightarrow> ('t::linorder, 'v) raw_frame \<Rightarrow> error + ('t, 'v) frame" where
  "load_trends_csv name raw =
     (let df = strip_columns raw in
      if ''Time'' \<notin> set (map fst df) then Inl (MissingTimeColumn name (map fst df))
      else
        case to_datetime_selection (time_selection df) of
          None \<Rightarrow> Inl (TimestampParseError name)
        | Some time \<Rightarrow>
            (case value_selection df of
               [(value_col, xs)] \<Rightarrow>
                 if trend_name_clean value_col = ''Time'' then Inl (ValueColumnTypeError name)
                 else Inr \<lparr>labels = [trend_name_clean value_col],
                           body = canonicalise (dropna_time (converted_rows time xs))\<rparr>
             | value_cols \<Rightarrow> Inl (AmbiguousValueColumn name (map fst value_cols))))"

text \<open>Line 38 in the spec's words: the first row of each group of equal timestamps after
  an ascending (stable) sort, then sorted and reindexed.\<close>

definition canonicalise_sorted_first :: "('t::linorder, 'a) row list \<Rightarrow> ('t, 'a) row list" where
  "canonicalise_sorted_first rs =
     reset_index (sort_values_time (drop_duplicates_time (sort_values_time rs)))"

text \<open>A raw frame whose value fields are replaced: \<open>g\<close> is applied to every field of
  every column that is not the \<^verbatim>\<open>Time\<close> column.\<close>

definition with_values ::
    "(('t, 'v) cell \<Rightarrow> ('t, 'v) cell) \<Rightarrow> ('t, 'v) raw_frame \<Rightarrow> ('t, 'v) raw_frame" where
  "with_values g raw = map (\<lambda>(c, xs). if strip c = ''Time'' then (c, xs) else (c, map g xs)) raw"

section \<open>Merging on \<^verbatim>\<open>Time\<close>\<close>

text \<open>
  The labels of \<^verbatim>\<open>left.merge(right, on="Time", how="inner")\<close>, as pandas 2 computes them
  (\<^verbatim>\<open>_items_overlap_with_suffix\<close> with the suffixes \<^verbatim>\<open>_x\<close> and \<^verbatim>\<open>_y\<close>): a value label
  that occurs on both sides gets the suffix of its side, and the merge raises a
  \<^verbatim>\<open>MergeError\<close> when the renaming makes two labels of one side equal. \<^verbatim>\<open>Time\<close> is the
  join key and no value label (\<^verbatim>\<open>load_trends_csv\<close> refuses one), so it takes no part.
  \<open>fresh_duplicates\<close> lists the renamed labels that repeat an earlier renamed label while
  their old label repeated none.
\<close>

fun fresh_duplicates :: "string list \<Rightarrow> string list \<Rightarrow> (string \<times> string) list \<Rightarrow> string list" where
  "fresh_duplicates seen_new seen_old [] = []"
| "fresh_duplicates seen_new seen_old ((new, old) # rest) =
     (if new \<in> set seen_new \<and> old \<notin> set seen_old then [new] else []) @
     fresh_duplicates (new # seen_new) (old # seen_old) rest"

definition items_overlap_with_suffix ::
    "string list \<Rightarrow> string list \<Rightarrow> error + string list \<times> string list" where
  "items_overlap_with_suffix left right =
     (let to_rename = filter (\<lambda>x. x \<in> set right) left in
      if to_rename = [] then Inr (left, right)
      else
        let llabels = map (\<lambda>x. if x \<in> set to_rename then x @ ''_x'' else x) left;
            rlabels = map (\<lambda>x. if x \<in> set to_rename then x @ ''_y'' else x) right;
            dups = fresh_duplicates [] [] (zip llabels left) @
                   fresh_duplicates [] [] (zip rlabels right)
        in if dups = [] then Inr (llabels, rlabels) else Inl MergeError)"

text \<open>The rows of the inner join: every pair of a left and a right row with the same
  timestamp gives a row, in the order of the left rows, under a fresh index.\<close>

definition join_rows :: "('t, 'v) frame \<Rightarrow> ('t, 'v) frame \<Rightarrow> ('t, 'v option list) row list" where
  "join_rows l r =
     range_index (concat (map
       (\<lambda>(i, t, vs). map (\<lambda>(j, u, ws). (t, vs @ ws))
                         (filter (\<lambda>x. row_time x = t) (body r)))
       (body l)))"

definition merge_inner :: "('t, 'v) frame \<Rightarrow> ('t, 'v) frame \<Rightarrow> error + ('t, 'v) frame" where
  "merge_inner l r =
     (case items_overlap_with_suffix (labels l) (labels r) of
        Inl e \<Rightarrow> Inl e
      | Inr (llabels, rlabels) \<Rightarrow> Inr \<lparr>labels = llabels @ rlabels, body = join_rows l r\<rparr>)"

text \<open>The loop of lines 71 and 72: the first merge that raises ends it.\<close>

fun merge_from :: "('t, 'v) frame \<Rightarrow> ('t, 'v) frame list \<Rightarrow> error + ('t, 'v) frame" where
  "merge_from merged [] = Inr merged"
| "merge_from merged (df # dfs) =
     (case merge_inner merged df of
        Inl e \<Rightarrow> Inl e
      | Inr merged' \<Rightarrow> merge_from merged' dfs)"

text \<open>Lines 70 to 75: \<^verbatim>\<open>dfs[0]\<close> raises on an empty list.\<close>

fun merge_frames :: "('t::linorder, 'v) frame list \<Rightarrow> error + ('t, 'v) frame" where
  "merge_frames [] = Inl IndexError"
| "merge_frames (d # ds) =
     (case merge_from d ds of
        Inl e \<Rightarrow> Inl e
      | Inr merged \<Rightarrow> Inr (merged\<lparr>body := reset_index (sort_values_time (body merged))\<rparr>))"

text \<open>A label that ends in one of the two suffixes. A title-cased name never does: the
  letter after an underscore is a capital.\<close>

definition suffixed :: "string \<Rightarrow> bool" where
  "suffixed l = (take 2 (rev l) = ''x_'' \<or> take 2 (rev l) = ''y_'')"

text \<open>What \<^verbatim>\<open>load_trends_csv\<close> returns (the spec's canonical series): one value column
  under a cleaned name, timestamps ascending without repetition, the index dense from
  zero.\<close>

definition canonical_series :: "('t::linorder, 'v) frame \<Rightarrow> bool" where
  "canonical_series f =
     (length (labels f) = 1 \<and>
      list_all (\<lambda>l. l \<noteq> ''Time'' \<and> \<not> suffixed l) (labels f) \<and>
      list_all (\<lambda>r. length (snd (snd r)) = 1) (body f) \<and>
      sorted (timestamps f) \<and> distinct (timestamps f) \<and> map fst (body f) = [0..<length (body f)])"

text \<open>In the output of \<^verbatim>\<open>title\<close> a small letter always follows a letter; \<open>prev\<close> says
  whether a letter precedes the text.\<close>

fun small_after_letter :: "bool \<Rightarrow> string \<Rightarrow> bool" where
  "small_after_letter prev [] = True"
| "small_after_letter prev (c # cs) =
     ((prev \<or> \<not> is_lower c) \<and> small_after_letter (is_lower c \<or> is_upper c) cs)"

section \<open>The continuity check\<close>

text \<open>
  The exports are dated by calendar day. A date is the pair of its month, counted from
  year 0 (\<open>12 * year + month - 1\<close>), and its day of the month, counted from 0; the
  lexicographic order of the pairs is the order of the calendar, and the first of a
  month is day 0.
\<close>

type_synonym date = "int \<times> nat"

text \<open>\<^verbatim>\<open>Series.min()\<close> and \<^verbatim>\<open>Series.max()\<close>: NaT (\<open>None\<close>) on an empty column.\<close>

fun series_min :: "'a::linorder list \<Rightarrow> 'a option" where
  "series_min [] = None"
| "series_min (x # xs) = Some (fold min xs x)"

fun series_max :: "'a::linorder list \<Rightarrow> 'a option" where
  "series_max [] = None"
| "series_max (x # xs) = Some (fold max xs x)"

text \<open>\<^verbatim>\<open>pd.date_range(start, stop, freq="MS")\<close>: the month starts from \<open>start\<close> to
  \<open>stop\<close>; pandas raises a ValueError when either bound is NaT.\<close>

fun date_range :: "date option \<Rightarrow> date option \<Rightarrow> error + date list" where
  "date_range (Some a) (Some b) =
     Inr (map (\<lambda>m. (m, 0)) [(if snd a = 0 then fst a else fst a + 1)..fst b])"
| "date_range start stop = Inl NaTRangeError"

text \<open>\<^verbatim>\<open>expected.difference(merged["Time"])\<close>: the expected dates that the frame lacks,
  in the order of \<open>expected\<close>, which is ascending without repetition.\<close>

definition difference :: "date list \<Rightarrow> date list \<Rightarrow> date list" where
  "difference expected ts = filter (\<lambda>d. d \<notin> set ts) expected"

datatype message =
    FoundRawCSVs "string list"
  | FoundCSVs "string list"
  | WarningNotMonthly
  | MissingMonths "date list" bool

text \<open>Lines 79 to 85. \<open>MissingMonths ds more\<close> is the line
  \<^verbatim>\<open>print("Missing months:", missing[:10], "..." if len(missing) > 10 else "")\<close>.\<close>

definition continuity_check :: "(date, 'v) frame \<Rightarrow> error + message list" where
  "continuity_check merged =
     (case date_range (series_min (timestamps merged)) (series_max (timestamps merged)) of
        Inl e \<Rightarrow> Inl e
      | Inr expected \<Rightarrow>
          Inr (if length expected \<noteq> length (body merged) \<or> timestamps merged \<noteq> expected
               then WarningNotMonthly #
                    (let missing = difference expected (timestamps merged)
                     in if length missing > 0
                        then [MissingMonths (take 10 missing) (length missing > 10)]
                        else [])
               else []))"

section \<open>The long format\<close>

text \<open>
  \<^verbatim>\<open>merged.melt(id_vars="Time", var_name="Trend", value_name="Interest")\<close>: pandas stacks
  the value columns one under the other, in column order, each beside a copy of the
  \<^verbatim>\<open>Time\<close> column; pandas 2 raises a ValueError when a column of the frame is already
  named like \<^verbatim>\<open>value_name\<close>. \<open>melt_rows\<close> are the rows of the long frame, in order.
\<close>

definition melt_rows :: "('t, 'v) frame \<Rightarrow> ('t \<times> string \<times> 'v option) list" where
  "melt_rows f = concat (map (\<lambda>(j, name). map (\<lambda>(i, t, vs). (t, name, vs ! j)) (body f))
                             (range_index (labels f)))"

definition melt :: "('t, 'v) frame \<Rightarrow> error + ('t \<times> string \<times> 'v option) list" where
  "melt f = (if ''Interest'' \<in> set (columns f) then Inl MeltValueNameError
             else Inr (melt_rows f))"

text \<open>The enumeration in the spec's words: for each row, for each metric column.\<close>

definition tidy_row_major :: "('t, 'v) frame \<Rightarrow> ('t \<times> string \<times> 'v option) list" where
  "tidy_row_major f = concat (map (\<lambda>(i, t, vs). map (\<lambda>(j, name). (t, name, vs ! j))
                                                   (range_index (labels f)))
                                 (body f))"

text \<open>
  Modelled from the spec: the pivot back from the long table to the wide one, which the
  script never performs and the spec only names. It is
  \<^verbatim>\<open>long.pivot(index="Time", columns="Trend", values="Interest").reset_index()\<close>:
  one row per timestamp and one column per metric name, both ascending; pandas raises
  when a (timestamp, name) pair occurs twice.
\<close>

definition lookup_interest :: "('t \<times> string \<times> 'v option) list \<Rightarrow> 't \<Rightarrow> string \<Rightarrow> 'v option" where
  "lookup_interest long t name =
     (case find (\<lambda>(u, m, v). u = t \<and> m = name) long of
        None \<Rightarrow> None
      | Some (u, m, v) \<Rightarrow> v)"

definition pivot :: "('t::linorder \<times> string \<times> 'v option) list \<Rightarrow> error + ('t, 'v) frame" where
  "pivot long =
     (if distinct (map (\<lambda>(t, name, v). (t, name)) long)
      then let names = sort (remdups (map (\<lambda>(t, name, v). name) long));
               ts = sort (remdups (map (\<lambda>(t, name, v). t) long))
           in Inr \<lparr>labels = names,
                   body = range_index (map (\<lambda>t. (t, map (lookup_interest long t) names)) ts)\<rparr>
      else Inl DuplicateEntries)"

text \<open>The labelled value columns of a frame, and equality of two frames up to the order
  of their value columns.\<close>

definition column_view :: "('t, 'v) frame \<Rightarrow> (string \<times> 'v option list) list" where
  "column_view f = map (\<lambda>(j, name). (name, map (\<lambda>(i, t, vs). vs ! j) (body f)))
                       (range_index (labels f))"

definition same_table :: "('t, 'v) frame \<Rightarrow> ('t, 'v) frame \<Rightarrow> bool" where
  "same_table a b =
     (map fst (body a) = map fst (body b) \<and> timestamps a = timestamps b \<and>
      mset (column_view a) = mset (column_view b))"

section \<open>The run\<close>

text \<open>
  What the run leaves behind: the files written, in order, and the console lines of the
  steps modelled. \<^verbatim>\<open>to_csv(path, index=False)\<close> writes the header and the rows without
  their index.
\<close>

datatype 'v csv_file =
    WideTable "string list" "(date \<times> 'v option list) list"
  | LongTable "string list" "(date \<times> string \<times> 'v option) list"

record 'v world =
  written :: "(string \<times> 'v csv_file) list"
  console :: "message list"

definition to_csv :: "string \<Rightarrow> 'v csv_file \<Rightarrow> 'v world \<Rightarrow> 'v world" where
  "to_csv path out w = w\<lparr>written := written w @ [(path, out)]\<rparr>"

definition out_wide :: string where
  "out_wide = ''data/trends_merged_GB_monthly.csv''"

definition out_long :: string where
  "out_long = ''data/trends_long_GB_monthly.csv''"

text \<open>Line 67: the files are loaded in order, and the first error ends the run.\<close>

fun load_all :: "(string \<times> ('t::linorder, 'v) raw_frame) list \<Rightarrow> error + ('t, 'v) frame list" where
  "load_all [] = Inr []"
| "load_all ((name, raw) # fs) =
     (case load_trends_csv name raw of
        Inl e \<Rightarrow> Inl e
      | Inr d \<Rightarrow> (case load_all fs of Inl e \<Rightarrow> Inl e | Inr ds \<Rightarrow> Inr (d # ds)))"

text \<open>Lines 88 to 94: the wide file is written before the melt, the long file after
  it.\<close>

definition save :: "(date, 'v) frame \<Rightarrow> 'v world \<Rightarrow> error option \<times> 'v world" where
  "save merged w =
     (let w1 = to_csv out_wide (WideTable (columns merged) (map snd (body merged))) w
      in case melt merged of
           Inl e \<Rightarrow> (Some e, w1)
         | Inr long_df \<Rightarrow>
             (None, to_csv out_long (LongTable [''Time'', ''Trend'', ''Interest''] long_df) w1))"

text \<open>Lines 79 to 94: the check, then the two files.\<close>

definition check_and_save :: "(date, 'v) frame \<Rightarrow> 'v world \<Rightarrow> error option \<times> 'v world" where
  "check_and_save merged w =
     (case continuity_check merged of
        Inl e \<Rightarrow> (Some e, w)
      | Inr warnings \<Rightarrow> save merged (w\<lparr>console := console w @ warnings\<rparr>))"

text \<open>
  The script from the file list (the result of the glob, each file with the frame
  \<^verbatim>\<open>pd.read_csv\<close> reads from it) to the second output file. The lines after it read
  the wide file back, print and plot; they write no file.
\<close>

definition run :: "(string \<times> (date, 'v) raw_frame) list \<Rightarrow> error option \<times> 'v world" where
  "run files =
     (if length files < 4
      then (Some (InsufficientInputFiles 4 (length files) (map fst files)),
            \<lparr>written = [], console = []\<rparr>)
      else
        let w = \<lparr>written = [],
                 console = [FoundRawCSVs (map fst files), FoundCSVs (map fst files)]\<rparr>
        in case load_all files of
             Inl e \<Rightarrow> (Some e, w)
           | Inr dfs \<Rightarrow>
               (case merge_frames dfs of
                  Inl e \<Rightarrow> (Some e, w)
                | Inr merged \<Rightarrow> check_and_save merged w))"

text \<open>The three fatal errors of the spec's taxonomy.\<close>

fun fatal_error :: "error \<Rightarrow> bool" where
  "fatal_error (InsufficientInputFiles expected found names) = True"
| "fatal_error (MissingTimeColumn name cols) = True"
| "fatal_error (AmbiguousValueColumn name cols) = True"
| "fatal_error e = False"

section \<open>Concrete inputs\<close>

text \<open>Five rows with two repeated timestamps, out of order.\<close>

definition dup_rows :: "(int, string) row list" where
  "dup_rows = [(0, 3, ''a''), (1, 1, ''b''), (2, 3, ''c''), (3, 2, ''d''), (4, 1, ''e'')]"

text \<open>Tokens: a date written as \<^verbatim>\<open>2020-01-01\<close>, a date written as \<^verbatim>\<open>01/02/2020\<close>, a
  number, and text that is neither.\<close>

definition iso_date :: "date \<Rightarrow> (date, 'v) cell" where
  "iso_date d = Token (Some ''%Y-%m-%d'')
                      (\<lambda>f. if f = ''%Y-%m-%d'' then Some d else None) (Some d) None"

definition slash_date :: "date \<Rightarrow> (date, 'v) cell" where
  "slash_date d = Token (Some ''%m/%d/%Y'')
                        (\<lambda>f. if f = ''%m/%d/%Y'' then Some d else None) (Some d) None"

definition number :: "'v \<Rightarrow> (date, 'v) cell" where
  "number n = Token None (\<lambda>f. None) None (Some n)"

definition words :: "(date, 'v) cell" where
  "words = Token None (\<lambda>f. None) None None"

definition unparsable_raw :: "(date, int) raw_frame" where
  "unparsable_raw =
     [(''Time'', [iso_date (24240, 0), words]),
      (''fashion'', [number 5, number 7])]"

definition mixed_raw :: "(date, int) raw_frame" where
  "mixed_raw =
     [(''Time'', [iso_date (24240, 0), slash_date (24241, 0)]),
      (''fashion'', [number 5, number 7])]"

definition blank_raw :: "(date, int) raw_frame" where
  "blank_raw =
     [('' Time'', [iso_date (24241, 0), Blank, iso_date (24240, 0), iso_date (24241, 0)]),
      (''fashion  trend '', [number 5, number 6, words, number 8])]"

definition series_a :: "(date, int) frame" where
  "series_a = \<lparr>labels = [''A''],
               body = [(0, (24240, 0), [Some 1]), (1, (24241, 0), [Some 2]),
                       (2, (24242, 0), [Some 3])]\<rparr>"

definition series_b :: "(date, int) frame" where
  "series_b = \<lparr>labels = [''B''],
               body = [(0, (24241, 0), [Some 10]), (1, (24242, 0), [Some 20]),
                       (2, (24243, 0), [Some 30])]\<rparr>"

definition merged_ab :: "(date, int) frame" where
  "merged_ab = \<lparr>labels = [''A'', ''B''],
                body = [(0, (24241, 0), [Some 2, Some 10]), (1, (24242, 0), [Some 3, Some 20])]\<rparr>"

definition export :: "string \<Rightarrow> (int \<times> int) list \<Rightarrow> (date, int) raw_frame" where
  "export header rows =
     [(''Time'', map (\<lambda>(m, v). iso_date (m, 0)) rows),
      (header, map (\<lambda>(m, v). number v) rows)]"

definition files_disjoint :: "(string \<times> (date, int) raw_frame) list" where
  "files_disjoint =
     [(''time_series_a.csv'', export ''a'' [(24240, 1), (24241, 2)]),
      (''time_series_b.csv'', export ''b'' [(24240, 3), (24241, 4)]),
      (''time_series_c.csv'', export ''c'' [(24240, 5), (24241, 6)]),
      (''time_series_d.csv'', export ''d'' [(24250, 7)])]"

definition files_no_time :: "(string \<times> (date, int) raw_frame) list" where
  "files_no_time =
     [(''time_series_a.csv'', export ''a'' [(24240, 1)]),
      (''time_series_b.csv'', [(''Date'', [iso_date (24240, 0)]), (''b'', [number 3])]),
      (''time_series_c.csv'', export ''c'' [(24240, 5)]),
      (''time_series_d.csv'', export ''d'' [(24240, 7)])]"

definition files_two_values :: "(string \<times> (date, int) raw_frame) list" where
  "files_two_values =
     [(''time_series_a.csv'', export ''a'' [(24240, 1)]),
      (''time_series_b.csv'', export ''b'' [(24240, 3)]),
      (''time_series_c.csv'', export ''c'' [(24240, 5)]),
      (''time_series_d.csv'', export ''d'' [(24240, 7)] @ [(''e'', [number 8])])]"

definition empty_merged :: "(date, int) frame" where
  "empty_merged = \<lparr>labels = [''A'', ''B'', ''C'', ''D''], body = []\<rparr>"

definition gap_merged :: "(date, int) frame" where
  "gap_merged = \<lparr>labels = [''A''],
                 body = [(0, (24240, 0), [Some 1]), (1, (24242, 0), [Some 3])]\<rparr>"

definition no_output :: "int world" where
  "no_output = \<lparr>written = [], console = []\<rparr>"

definition series_late :: "(date, int) frame" where
  "series_late = \<lparr>labels = [''Late''], body = [(0, (24250, 0), [Some 7])]\<rparr>"

definition empty_a_late :: "(date, int) frame" where
  "empty_a_late = \<lparr>labels = [''A'', ''Late''], body = []\<rparr>"

definition merged_ba :: "(date, int) frame" where
  "merged_ba = \<lparr>labels = [''B'', ''A''],
                body = [(0, (24241, 0), [Some 10, Some 2]), (1, (24242, 0), [Some 20, Some 3])]\<rparr>"

text \<open>Four files whose value columns share one header, and four files of which one is
  headed \<^verbatim>\<open>interest\<close>.\<close>

definition files_same_header :: "(string \<times> (date, int) raw_frame) list" where
  "files_same_header =
     [(''time_series_a.csv'', export ''fashion'' [(24240, 1)]),
      (''time_series_b.csv'', export ''fashion'' [(24240, 3)]),
      (''time_series_c.csv'', export ''fashion'' [(24240, 5)]),
      (''time_series_d.csv'', export ''fashion'' [(24240, 7)])]"

definition files_interest :: "(string \<times> (date, int) raw_frame) list" where
  "files_interest =
     [(''time_series_a.csv'', export ''a'' [(24240, 1)]),
      (''time_series_b.csv'', export ''b'' [(24240, 3)]),
      (''time_series_c.csv'', export ''c'' [(24240, 5)]),
      (''time_series_d.csv'', export ''interest'' [(24240, 7)])]"

definition series_interest :: "(date, int) frame" where
  "series_interest = \<lparr>labels = [''Interest''], body = [(0, (24240, 0), [Some 7])]\<rparr>"

definition interest_merged :: "(date, int) frame" where
  "interest_merged = \<lparr>labels = [''A'', ''Interest''],
                      body = [(0, (24240, 0), [Some 1, Some 7])]\<rparr>"


section \<open>Properties of the loader\<close>

lemma set_drop_duplicates_from:
  "set (drop_duplicates_from seen rs) =
     {r \<in> set rs. row_time r \<notin> set seen \<and> find (\<lambda>x. row_time x = row_time r) rs = Some r}"
  by (induction rs arbitrary: seen) auto

lemma times_drop_duplicates_from:
  "set (map row_time (drop_duplicates_from seen rs)) = set (map row_time rs) - set seen"
  by (induction rs arbitrary: seen) auto

lemma distinct_drop_duplicates_from:
  "distinct (map row_time (drop_duplicates_from seen rs))"
  by (induction rs arbitrary: seen) (auto simp: times_drop_duplicates_from simp del: set_map)

lemma sorted_drop_duplicates_from:
  "sorted (map row_time rs) \<Longrightarrow> sorted (map row_time (drop_duplicates_from seen rs))"
proof (induction rs arbitrary: seen)
  case Nil
  show ?case by simp
next
  case (Cons r rs)
  have sub: "set (map row_time (drop_duplicates_from s rs)) \<subseteq> set (map row_time rs)" for s
    unfolding times_drop_duplicates_from by blast
  from Cons show ?case using sub by (auto simp del: set_map)
qed

lemma find_filter: "find P xs = (case filter P xs of [] \<Rightarrow> None | x # _ \<Rightarrow> Some x)"
  by (induction xs) auto

lemma find_sort_key: "find (\<lambda>x. k x = a) (sort_key k xs) = find (\<lambda>x. k x = a) xs"
  by (simp add: find_filter sort_key_stable)

lemma sorted_distinct_keys_unique:
  assumes "sorted (map k xs)" "distinct (map k xs)" "sorted (map k ys)" "distinct (map k ys)"
    and "set xs = set ys"
  shows "xs = ys"
proof -
  have "set (map k xs) = set (map k ys)" using assms(5) by simp
  then have m: "map k xs = map k ys"
    using assms(1-4) by (intro sorted_distinct_set_unique)
  have "inj_on k (set xs \<union> set ys)"
    using assms(2,5) by (simp add: distinct_map)
  then show ?thesis using m by (simp add: inj_on_map_eq_map)
qed

lemma drop_duplicates_sort_commute:
  "drop_duplicates_time (sort_values_time rs) = sort_values_time (drop_duplicates_time rs)"
proof (rule sorted_distinct_keys_unique [where k = row_time])
  show "sorted (map row_time (drop_duplicates_time (sort_values_time rs)))"
    unfolding drop_duplicates_time_def sort_values_time_def
    by (rule sorted_drop_duplicates_from) simp
  show "distinct (map row_time (drop_duplicates_time (sort_values_time rs)))"
    unfolding drop_duplicates_time_def by (rule distinct_drop_duplicates_from)
  show "sorted (map row_time (sort_values_time (drop_duplicates_time rs)))"
    unfolding sort_values_time_def by simp
  have "mset (map row_time (sort_values_time (drop_duplicates_time rs)))
        = mset (map row_time (drop_duplicates_time rs))"
    unfolding sort_values_time_def by simp
  then show "distinct (map row_time (sort_values_time (drop_duplicates_time rs)))"
    using distinct_drop_duplicates_from [of "[]" rs]
    unfolding drop_duplicates_time_def by (metis mset_eq_imp_distinct_iff)
  show "set (drop_duplicates_time (sort_values_time rs)) = set (sort_values_time (drop_duplicates_time rs))"
    unfolding drop_duplicates_time_def sort_values_time_def
    by (auto simp: set_drop_duplicates_from find_sort_key)
qed

lemma map_fst_range_index: "map fst (range_index xs) = [0..<length xs]"
  by (simp add: range_index_def)

lemma map_snd_range_index: "map snd (range_index xs) = xs"
  by (simp add: range_index_def)

lemma length_range_index: "length (range_index xs) = length xs"
  by (simp add: range_index_def)

lemma times_reset_index: "map row_time (reset_index rs) = map row_time rs"
proof -
  have "map row_time (reset_index rs) = map fst (map snd (range_index (map snd rs)))"
    unfolding reset_index_def row_time_def by simp
  also have "\<dots> = map row_time rs"
    unfolding map_snd_range_index row_time_def by simp
  finally show ?thesis .
qed

lemma nth_range_index: "k < length xs \<Longrightarrow> range_index xs ! k = (k, xs ! k)"
  by (simp add: range_index_def)

lemma set_reset_index_snd: "snd ` set (reset_index rs) = snd ` set rs"
proof -
  have "snd ` set (reset_index rs) = set (map snd (reset_index rs))" by simp
  also have "\<dots> = set (map snd rs)"
    unfolding reset_index_def map_snd_range_index ..
  finally show ?thesis by simp
qed

lemma index_reset_index: "map fst (reset_index rs) = [0..<length (reset_index rs)]"
  by (simp add: reset_index_def range_index_def)

lemma times_sort_values: "mset (map row_time (sort_values_time rs)) = mset (map row_time rs)"
  by (simp add: sort_values_time_def)

lemma times_canonicalise_set: "set (map row_time (canonicalise rs)) = set (map row_time rs)"
proof -
  have "set (map row_time (canonicalise rs)) = set (map row_time (drop_duplicates_time rs))"
    unfolding canonicalise_def times_reset_index
    using times_sort_values [of "drop_duplicates_time rs"] by (metis set_mset_mset)
  also have "\<dots> = set (map row_time rs)"
    unfolding drop_duplicates_time_def times_drop_duplicates_from by simp
  finally show ?thesis .
qed

lemma distinct_times_canonicalise: "distinct (map row_time (canonicalise rs))"
proof -
  have "distinct (map row_time (drop_duplicates_time rs))"
    unfolding drop_duplicates_time_def by (rule distinct_drop_duplicates_from)
  then have "distinct (map row_time (sort_values_time (drop_duplicates_time rs)))"
    using times_sort_values [of "drop_duplicates_time rs"] by (metis mset_eq_imp_distinct_iff)
  then show ?thesis unfolding canonicalise_def times_reset_index .
qed

lemma sorted_times_canonicalise: "sorted (map row_time (canonicalise rs))"
  unfolding canonicalise_def times_reset_index sort_values_time_def by simp

lemma rows_canonicalise:
  "snd ` set (canonicalise rs) =
     snd ` {r \<in> set rs. find (\<lambda>x. row_time x = row_time r) rs = Some r}"
proof -
  have "snd ` set (canonicalise rs) = snd ` set (drop_duplicates_time rs)"
    unfolding canonicalise_def set_reset_index_snd sort_values_time_def by simp
  then show ?thesis
    unfolding drop_duplicates_time_def set_drop_duplicates_from by simp
qed

lemma canonicalise_eq_sorted_first: "canonicalise rs = canonicalise_sorted_first rs"
proof -
  have "sort_values_time (sort_values_time (drop_duplicates_time rs))
        = sort_values_time (drop_duplicates_time rs)"
    unfolding sort_values_time_def by (rule sort_key_id_if_sorted) simp
  then show ?thesis
    unfolding canonicalise_def canonicalise_sorted_first_def drop_duplicates_sort_commute
    by simp
qed

text \<open>
  C4. Line 38 keeps one row for each timestamp of its input, the first row that carries
  it; the result equals what keeping the first row of each group after an ascending stable
  sort, sorting and reindexing gives; its timestamps ascend without repetition and its
  index is \<open>0, 1, \<dots>\<close> without gaps.
\<close>

theorem canonicalise_first_sorted_dense:
  "canonicalise rs = canonicalise_sorted_first rs \<and>
   snd ` set (canonicalise rs) =
     snd ` {r \<in> set rs. find (\<lambda>x. row_time x = row_time r) rs = Some r} \<and>
   set (map row_time (canonicalise rs)) = set (map row_time rs) \<and>
   distinct (map row_time (canonicalise rs)) \<and>
   sorted (map row_time (canonicalise rs)) \<and>
   map fst (canonicalise rs) = [0..<length (canonicalise rs)]"
  using canonicalise_eq_sorted_first rows_canonicalise times_canonicalise_set
    distinct_times_canonicalise sorted_times_canonicalise
    index_reset_index [of "sort_values_time (drop_duplicates_time rs)"]
  unfolding canonicalise_def by blast

theorem canonicalise_first_sorted_dense_witness:
  "canonicalise_sorted_first dup_rows = [(0, 1, ''b''), (1, 2, ''d''), (2, 3, ''a'')]"
proof -
  have e: "canonicalise dup_rows = [(0, 1, ''b''), (1, 2, ''d''), (2, 3, ''a'')]"
    by code_simp
  have s: "canonicalise_sorted_first dup_rows = canonicalise dup_rows"
    using canonicalise_first_sorted_dense [of dup_rows] by simp
  show ?thesis unfolding s by (rule e)
qed

lemma timestamps_row_time: "timestamps f = map row_time (body f)"
  by (simp add: timestamps_def row_time_def case_prod_unfold)

lemma to_datetime_selection_Some:
  "to_datetime_selection sel = Some time \<longleftrightarrow>
     (\<exists>c ts. sel = [(c, ts)] \<and> to_datetime ts = Some time)"
  by (cases sel rule: to_datetime_selection.cases) auto

lemma length_to_datetime: "to_datetime ts = Some time \<Longrightarrow> length time = length ts"
  by (auto simp: to_datetime_def Let_def split: if_splits)

lemma to_datetime_unreadable:
  assumes "x \<in> set ts" "\<not> is_blank x"
    and "parse_entry (guess_datetime_format (first_non_null ts)) x = None"
  shows "to_datetime ts = None"
proof -
  have "list_ex (\<lambda>x. \<not> is_blank x \<and>
          parse_entry (guess_datetime_format (first_non_null ts)) x = None) ts"
    unfolding list_ex_iff using assms by blast
  then show ?thesis by (simp add: to_datetime_def Let_def)
qed

lemma time_selection_nonempty:
  "time_selection df = (c, ts) # rest \<Longrightarrow> ''Time'' \<in> set (map fst df)"
proof -
  assume a: "time_selection df = (c, ts) # rest"
  then have "(c, ts) \<in> set (time_selection df)" by simp
  then have "(c, ts) \<in> set df \<and> c = ''Time''" by (auto simp: time_selection_def)
  then show ?thesis by force
qed

lemma load_trends_csv_Inr:
  "load_trends_csv name raw = Inr s \<longleftrightarrow>
     (\<exists>c ts time c' vs. time_selection (strip_columns raw) = [(c, ts)] \<and>
        to_datetime ts = Some time \<and>
        value_selection (strip_columns raw) = [(c', vs)] \<and> trend_name_clean c' \<noteq> ''Time'' \<and>
        s = \<lparr>labels = [trend_name_clean c'],
             body = canonicalise (dropna_time (converted_rows time vs))\<rparr>)"
  (is "?L \<longleftrightarrow> ?R")
proof
  assume l: ?L
  have t: "''Time'' \<in> set (map fst (strip_columns raw))"
    using l unfolding load_trends_csv_def Let_def by (auto split: if_splits)
  obtain time where d: "to_datetime_selection (time_selection (strip_columns raw)) = Some time"
    using l t unfolding load_trends_csv_def Let_def
    by (cases "to_datetime_selection (time_selection (strip_columns raw))") auto
  obtain c ts where ts: "time_selection (strip_columns raw) = [(c, ts)]"
    "to_datetime ts = Some time"
    using d unfolding to_datetime_selection_Some by blast
  have "\<exists>c' vs. value_selection (strip_columns raw) = [(c', vs)]"
  proof (cases "value_selection (strip_columns raw)")
    case Nil
    then show ?thesis
      using l t d unfolding load_trends_csv_def Let_def by simp
  next
    case (Cons p rest)
    show ?thesis
    proof (cases rest)
      case Nil
      then show ?thesis using Cons by (cases p) simp
    next
      case (Cons q rest')
      then show ?thesis
        using l t d \<open>value_selection (strip_columns raw) = p # rest\<close>
        unfolding load_trends_csv_def Let_def by (cases p) simp
    qed
  qed
  then obtain c' vs where vs: "value_selection (strip_columns raw) = [(c', vs)]" by blast
  have "trend_name_clean c' \<noteq> ''Time'' \<and> s = \<lparr>labels = [trend_name_clean c'],
             body = canonicalise (dropna_time (converted_rows time vs))\<rparr>"
    using l t d vs unfolding load_trends_csv_def Let_def by (auto split: if_splits)
  then show ?R using ts vs by blast
next
  assume ?R
  then obtain c ts time c' vs where h: "time_selection (strip_columns raw) = [(c, ts)]"
    "to_datetime ts = Some time" "value_selection (strip_columns raw) = [(c', vs)]"
    "trend_name_clean c' \<noteq> ''Time''"
    "s = \<lparr>labels = [trend_name_clean c'],
             body = canonicalise (dropna_time (converted_rows time vs))\<rparr>"
    by blast
  have t: "''Time'' \<in> set (map fst (strip_columns raw))"
    using h(1) by (rule time_selection_nonempty)
  have d: "to_datetime_selection (time_selection (strip_columns raw)) = Some time"
    using h(1,2) by simp
  show ?L
    unfolding load_trends_csv_def Let_def using t d h(3,4,5) by simp
qed

lemma load_trends_csv_unparsable:
  assumes "time_selection (strip_columns raw) = [(c, ts)]" "to_datetime ts = None"
  shows "load_trends_csv name raw = Inl (TimestampParseError name)"
proof -
  have t: "''Time'' \<in> set (map fst (strip_columns raw))"
    using assms(1) by (rule time_selection_nonempty)
  have "to_datetime_selection (time_selection (strip_columns raw)) = None"
    using assms by simp
  then show ?thesis unfolding load_trends_csv_def Let_def using t by simp
qed

lemma times_range_index: "map row_time (range_index zs) = map fst zs"
proof -
  have "map row_time (range_index zs) = map fst (map snd (range_index zs))"
    by (simp add: row_time_def)
  then show ?thesis unfolding map_snd_range_index .
qed

lemma times_converted_rows: "map row_time (converted_rows time xs) = take (length xs) time"
proof -
  have "map fst (zip time (map (\<lambda>x. [to_numeric x]) xs)) = take (length xs) time"
    by (simp add: map_fst_zip_take min_def)
  then show ?thesis unfolding converted_rows_def times_range_index by simp
qed

lemma times_dropna_cong:
  "map row_time rs = map row_time rs' \<Longrightarrow>
   map row_time (dropna_time rs) = map row_time (dropna_time rs')"
proof (induction rs arbitrary: rs')
  case Nil
  then show ?case by simp
next
  case (Cons r rs)
  then obtain r' rs'' where e: "rs' = r' # rs''" "row_time r = row_time r'"
    "map row_time rs = map row_time rs''" by auto
  obtain i t v where r: "r = (i, t, v)" by (cases r) auto
  obtain i' t' v' where r': "r' = (i', t', v')" by (cases r') auto
  have tt: "t = t'" using e(2) r r' by (simp add: row_time_def)
  show ?case using Cons.IH [OF e(3)] e(1) r r' tt
    by (cases t') (simp_all add: row_time_def)
qed

lemma times_drop_duplicates_cong:
  "map row_time rs = map row_time rs' \<Longrightarrow>
   map row_time (drop_duplicates_from seen rs) = map row_time (drop_duplicates_from seen rs')"
proof (induction rs arbitrary: rs' seen)
  case Nil
  then show ?case by simp
next
  case (Cons r rs)
  then obtain r' rs'' where e: "rs' = r' # rs''" "row_time r = row_time r'"
    "map row_time rs = map row_time rs''" by auto
  show ?case using Cons.IH [OF e(3)] e(1,2) by simp
qed

lemma map_insort_key: "map f (insort_key f x xs) = insort (f x) (map f xs)"
  by (induction xs) auto

lemma map_sort_key: "map f (sort_key f xs) = sort (map f xs)"
  by (induction xs) (auto simp: map_insort_key)

lemma times_canonicalise:
  "map row_time (canonicalise rs) = sort (map row_time (drop_duplicates_time rs))"
  unfolding canonicalise_def times_reset_index sort_values_time_def by (rule map_sort_key)

lemma times_canonicalise_cong:
  assumes "map row_time rs = map row_time rs'"
  shows "map row_time (canonicalise rs) = map row_time (canonicalise rs')"
proof -
  have "map row_time (drop_duplicates_time rs) = map row_time (drop_duplicates_time rs')"
    unfolding drop_duplicates_time_def using assms by (rule times_drop_duplicates_cong)
  then show ?thesis unfolding times_canonicalise by simp
qed

lemma dropna_find:
  "k < length rs \<Longrightarrow> rs ! k = (i, Some t, v) \<Longrightarrow> (\<forall>j<k. row_time (rs ! j) \<noteq> Some t) \<Longrightarrow>
   find (\<lambda>x. row_time x = t) (dropna_time rs) = Some (i, t, v)"
proof (induction rs arbitrary: k)
  case Nil
  then show ?case by simp
next
  case (Cons r rs)
  show ?case
  proof (cases k)
    case 0
    then show ?thesis using Cons.prems by (simp add: row_time_def)
  next
    case (Suc k')
    have a: "k' < length rs" "rs ! k' = (i, Some t, v)" using Cons.prems Suc by auto
    have b: "\<forall>j<k'. row_time (rs ! j) \<noteq> Some t"
      using Cons.prems(3) Suc by (metis Suc_less_eq nth_Cons_Suc)
    have c: "row_time r \<noteq> Some t" using Cons.prems(3) Suc by (metis nth_Cons_0 zero_less_Suc)
    obtain i' t' v' where r: "r = (i', t', v')" by (cases r) auto
    show ?thesis using Cons.IH [OF a b] c r
      by (cases t') (simp_all add: row_time_def)
  qed
qed

lemma find_Some_member: "find P xs = Some x \<Longrightarrow> x \<in> set xs"
  by (auto simp: find_Some_iff)

lemma first_row_kept:
  assumes "find (\<lambda>x. row_time x = t) rs = Some (i, t, v)"
  shows "\<exists>i'. (i', t, v) \<in> set (canonicalise rs)"
proof -
  have m: "(i, t, v) \<in> set rs" using assms by (rule find_Some_member)
  have "(i, t, v) \<in> {r \<in> set rs. find (\<lambda>x. row_time x = row_time r) rs = Some r}"
    using m assms by (simp add: row_time_def)
  then have "snd (i, t, v) \<in> snd ` set (canonicalise rs)"
    unfolding rows_canonicalise by (rule imageI)
  then show ?thesis by force
qed

lemma nth_converted_rows:
  "k < length time \<Longrightarrow> k < length xs \<Longrightarrow>
   converted_rows time xs ! k = (k, time ! k, [to_numeric (xs ! k)])"
  by (simp add: converted_rows_def range_index_def)

lemma length_converted_rows: "length (converted_rows time xs) = min (length time) (length xs)"
  by (simp add: converted_rows_def range_index_def)

lemma times_dropna: "set (map row_time (dropna_time rs)) = {t. Some t \<in> set (map row_time rs)}"
  by (induction rs rule: dropna_time.induct) (auto simp: row_time_def)

lemma times_loaded:
  assumes "length vs = length time"
  shows "set (map row_time (canonicalise (dropna_time (converted_rows time vs))))
         = {t. Some t \<in> set time}"
  unfolding times_canonicalise_set times_dropna times_converted_rows using assms by simp

text \<open>
  C2, as amended. An entry of the \<^verbatim>\<open>Time\<close> column that \<^verbatim>\<open>pd.to_datetime\<close> cannot read
  (it is no date, or it is a date in another format than the one guessed from the first
  entry) is fatal: the conversion raises and the load ends in an error. When the load
  returns a series, the conversion has succeeded, the rows with an empty timestamp are
  dropped and the timestamps of the series are exactly the dates read from the column (a
  series has no null timestamp: its rows carry a date, not an optional one). The load
  does return when the conversion succeeds, there is exactly one value column and its
  cleaned name is not \<^verbatim>\<open>Time\<close>.
\<close>

theorem load_trends_csv_time_entries:
  "(x \<in> set ts \<and> \<not> is_blank x \<and>
    parse_entry (guess_datetime_format (first_non_null ts)) x = None
    \<longrightarrow> to_datetime ts = None) \<and>
   (time_selection (strip_columns raw) = [(c, ts)] \<and> to_datetime ts = None
    \<longrightarrow> load_trends_csv name raw = Inl (TimestampParseError name)) \<and>
   (load_trends_csv name raw = Inr s \<and> time_selection (strip_columns raw) = [(c, ts)] \<and>
    value_selection (strip_columns raw) = [(c', vs)] \<and> length vs = length ts
    \<longrightarrow> (\<exists>time. to_datetime ts = Some time \<and> set (timestamps s) = {t. Some t \<in> set time})) \<and>
   (time_selection (strip_columns raw) = [(c, ts)] \<and> to_datetime ts = Some time \<and>
    value_selection (strip_columns raw) = [(c', vs)] \<and> trend_name_clean c' \<noteq> ''Time''
    \<longrightarrow> (\<exists>s. load_trends_csv name raw = Inr s))"
proof (intro conjI impI)
  assume "x \<in> set ts \<and> \<not> is_blank x \<and>
    parse_entry (guess_datetime_format (first_non_null ts)) x = None"
  then show "to_datetime ts = None" using to_datetime_unreadable [of x ts] by blast
next
  assume "time_selection (strip_columns raw) = [(c, ts)] \<and> to_datetime ts = None"
  then show "load_trends_csv name raw = Inl (TimestampParseError name)"
    by (simp add: load_trends_csv_unparsable)
next
  assume h: "load_trends_csv name raw = Inr s \<and> time_selection (strip_columns raw) = [(c, ts)] \<and>
    value_selection (strip_columns raw) = [(c', vs)] \<and> length vs = length ts"
  then obtain time where t: "to_datetime ts = Some time"
    "s = \<lparr>labels = [trend_name_clean c'],
          body = canonicalise (dropna_time (converted_rows time vs))\<rparr>"
    unfolding load_trends_csv_Inr by auto
  have "length vs = length time" using h length_to_datetime [OF t(1)] by simp
  then have "set (timestamps s) = {t. Some t \<in> set time}"
    unfolding timestamps_row_time t(2) using times_loaded by simp
  with t(1) show "\<exists>time. to_datetime ts = Some time \<and> set (timestamps s) = {t. Some t \<in> set time}"
    by blast
next
  assume "time_selection (strip_columns raw) = [(c, ts)] \<and> to_datetime ts = Some time \<and>
    value_selection (strip_columns raw) = [(c', vs)] \<and> trend_name_clean c' \<noteq> ''Time''"
  then show "\<exists>s. load_trends_csv name raw = Inr s"
    unfolding load_trends_csv_Inr by blast
qed

text \<open>
  The claim as stated fails: one entry of the \<^verbatim>\<open>Time\<close> column that is no date, or one
  date in another format than the first, and the load ends in the error of
  \<^verbatim>\<open>pd.to_datetime\<close>.
\<close>

theorem load_trends_csv_unparsable_counterexample:
  "load_trends_csv ''bad.csv'' unparsable_raw = Inl (TimestampParseError ''bad.csv'') \<and>
   load_trends_csv ''mixed.csv'' mixed_raw = Inl (TimestampParseError ''mixed.csv'')"
  by code_simp

lemma blank_raw_load:
  "load_trends_csv ''ok.csv'' blank_raw =
     Inr \<lparr>labels = [''Fashion Trend''],
          body = [(0, (24240, 0), [None]), (1, (24241, 0), [Some 5])]\<rparr>"
  by code_simp

lemma blank_raw_columns:
  "time_selection (strip_columns blank_raw)
     = [(''Time'', [iso_date (24241, 0), Blank, iso_date (24240, 0), iso_date (24241, 0)])]"
  "value_selection (strip_columns blank_raw)
     = [(''fashion  trend'', [number 5, number 6, words, number 8])]"
  by (simp_all add: blank_raw_def strip_columns_def time_selection_def value_selection_def
        strip_def is_space_def)

lemma blank_raw_times:
  "to_datetime [iso_date (24241, 0), Blank, iso_date (24240, 0), iso_date (24241, 0) :: (date, int) cell]
     = Some [Some (24241, 0), None, Some (24240, 0), Some (24241, 0)]"
  by (simp add: to_datetime_def iso_date_def)

theorem load_trends_csv_time_entries_witness:
  "to_datetime [iso_date (24240, 0), words :: (date, int) cell] = None \<and>
   load_trends_csv ''bad.csv'' unparsable_raw = Inl (TimestampParseError ''bad.csv'') \<and>
   (\<exists>s. load_trends_csv ''ok.csv'' blank_raw = Inr s \<and>
        set (timestamps s) = {(24240, 0), (24241, 0)})"
proof -
  let ?bad = "[iso_date (24240, 0), words] :: (date, int) cell list"
  let ?ts = "[iso_date (24241, 0), Blank, iso_date (24240, 0), iso_date (24241, 0)]
             :: (date, int) cell list"
  let ?vs = "[number 5, number 6, words, number 8] :: (date, int) cell list"
  let ?s = "\<lparr>labels = [''Fashion Trend''],
            body = [(0, (24240, 0), [None]), (1, (24241, 0), [Some 5])]\<rparr> :: (date, int) frame"
  have a: "time_selection (strip_columns unparsable_raw) = [(''Time'', ?bad)]"
    by (simp add: unparsable_raw_def strip_columns_def time_selection_def strip_def is_space_def)
  have w: "(words :: (date, int) cell) \<in> set ?bad \<and> \<not> is_blank (words :: (date, int) cell) \<and>
           parse_entry (guess_datetime_format (first_non_null ?bad)) (words :: (date, int) cell) = None"
    by (simp add: words_def iso_date_def)
  have 1: "to_datetime ?bad = None"
    using load_trends_csv_time_entries [of "words :: (date, int) cell" ?bad] w by blast
  have 2: "load_trends_csv ''bad.csv'' unparsable_raw = Inl (TimestampParseError ''bad.csv'')"
    using load_trends_csv_time_entries [of _ ?bad unparsable_raw "''Time''" "''bad.csv''"] a 1
    by blast
  have "\<exists>time. to_datetime ?ts = Some time \<and> set (timestamps ?s) = {t. Some t \<in> set time}"
    using load_trends_csv_time_entries
      [of _ ?ts blank_raw "''Time''" "''ok.csv''" ?s "''fashion  trend''" ?vs]
      blank_raw_load blank_raw_columns by simp
  then have "set (timestamps ?s) = {t. Some t \<in> set [Some (24241, 0), None, Some (24240, 0), Some (24241, 0)]}"
    unfolding blank_raw_times by simp
  then have "set (timestamps ?s) = {(24240, 0), (24241, 0)}" by auto
  with 1 2 blank_raw_load show ?thesis by blast
qed

lemma headers_with_values:
  "map fst (strip_columns (with_values g raw)) = map fst (strip_columns raw)"
  by (induction raw) (auto simp: strip_columns_def with_values_def split: if_splits)

lemma time_selection_with_values:
  "time_selection (strip_columns (with_values g raw)) = time_selection (strip_columns raw)"
  by (induction raw) (auto simp: strip_columns_def with_values_def time_selection_def split: if_splits)

lemma value_selection_with_values:
  "value_selection (strip_columns (with_values g raw))
   = map (\<lambda>(c, xs). (c, map g xs)) (value_selection (strip_columns raw))"
  by (induction raw) (auto simp: strip_columns_def with_values_def value_selection_def split: if_splits)

lemma times_body_with_values:
  "map row_time (canonicalise (dropna_time (converted_rows time (map g xs))))
   = map row_time (canonicalise (dropna_time (converted_rows time xs)))"
proof -
  have "map row_time (converted_rows time (map g xs)) = map row_time (converted_rows time xs)"
    unfolding times_converted_rows by simp
  then have "map row_time (dropna_time (converted_rows time (map g xs)))
             = map row_time (dropna_time (converted_rows time xs))"
    by (rule times_dropna_cong)
  then show ?thesis by (rule times_canonicalise_cong)
qed

lemma load_with_values:
  "map_sum id timestamps (load_trends_csv name (with_values g raw))
   = map_sum id timestamps (load_trends_csv name raw)"
proof (cases "''Time'' \<in> set (map fst (strip_columns raw))")
  case False
  then show ?thesis
    unfolding load_trends_csv_def Let_def headers_with_values by simp
next
  case t: True
  show ?thesis
  proof (cases "to_datetime_selection (time_selection (strip_columns raw))")
    case None
    then show ?thesis
      unfolding load_trends_csv_def Let_def headers_with_values time_selection_with_values
      using t by simp
  next
    case (Some time)
    show ?thesis
    proof (cases "value_selection (strip_columns raw)")
      case Nil
      then show ?thesis
        unfolding load_trends_csv_def Let_def headers_with_values time_selection_with_values
          value_selection_with_values
        using t Some by simp
    next
      case (Cons p rest)
      obtain vc xs where p: "p = (vc, xs)" by (cases p) auto
      show ?thesis
      proof (cases rest)
        case Nil
        then show ?thesis
          unfolding load_trends_csv_def Let_def headers_with_values time_selection_with_values
            value_selection_with_values
          using t Some Cons p times_body_with_values [of time g xs]
          by (simp add: timestamps_row_time)
      next
        case c2: (Cons q rest')
        obtain vc' xs' where q: "q = (vc', xs')" by (cases q) auto
        show ?thesis
          unfolding load_trends_csv_def Let_def headers_with_values time_selection_with_values
            value_selection_with_values
          using t Some Cons p c2 q by (simp add: comp_def case_prod_unfold)
      qed
    qed
  qed
qed

lemma loaded_row:
  assumes "k < length time" "k < length vs" "time ! k = Some t"
    and "\<forall>j<k. time ! j \<noteq> Some t"
  shows "\<exists>i. (i, t, [to_numeric (vs ! k)])
              \<in> set (canonicalise (dropna_time (converted_rows time vs)))"
proof -
  let ?rs = "converted_rows time vs"
  have len: "k < length ?rs" using assms(1,2) by (simp add: length_converted_rows)
  have row: "?rs ! k = (k, Some t, [to_numeric (vs ! k)])"
    using assms(1,2,3) by (simp add: nth_converted_rows)
  have before: "\<forall>j<k. row_time (?rs ! j) \<noteq> Some t"
    using assms(1,2,4) by (simp add: nth_converted_rows row_time_def)
  have "find (\<lambda>x. row_time x = t) (dropna_time ?rs) = Some (k, t, [to_numeric (vs ! k)])"
    using len row before by (rule dropna_find)
  then show ?thesis by (rule first_row_kept)
qed

text \<open>
  C8. No value entry makes the load fail, and no value entry decides whether its row
  stays: replacing the value entries by any others (\<open>with_values g\<close>) changes neither
  the error the load ends in, if any, nor the timestamps of the series it returns. In a
  load that succeeds, the first row that carries a date \<open>t\<close> is in the series with the
  coerced value of its entry, which is \<open>None\<close> (NaN) for an entry that is no number.
\<close>

theorem load_trends_csv_value_entries:
  "map_sum id timestamps (load_trends_csv name (with_values g raw))
     = map_sum id timestamps (load_trends_csv name raw) \<and>
   (load_trends_csv name raw = Inr s \<and> time_selection (strip_columns raw) = [(c, ts)] \<and>
    value_selection (strip_columns raw) = [(c', vs)] \<and> to_datetime ts = Some time \<and>
    k < length ts \<and> k < length vs \<and>
    time ! k = Some t \<and> (\<forall>j<k. time ! j \<noteq> Some t)
    \<longrightarrow> (\<exists>i. (i, t, [to_numeric (vs ! k)]) \<in> set (body s)))"
proof (intro conjI impI)
  show "map_sum id timestamps (load_trends_csv name (with_values g raw))
     = map_sum id timestamps (load_trends_csv name raw)"
    by (rule load_with_values)
next
  assume h: "load_trends_csv name raw = Inr s \<and> time_selection (strip_columns raw) = [(c, ts)] \<and>
    value_selection (strip_columns raw) = [(c', vs)] \<and> to_datetime ts = Some time \<and>
    k < length ts \<and> k < length vs \<and>
    time ! k = Some t \<and> (\<forall>j<k. time ! j \<noteq> Some t)"
  then have b: "body s = canonicalise (dropna_time (converted_rows time vs))"
    unfolding load_trends_csv_Inr by auto
  have "k < length time" using h length_to_datetime [of ts time] by simp
  then show "\<exists>i. (i, t, [to_numeric (vs ! k)]) \<in> set (body s)"
    unfolding b using loaded_row [of k time vs t] h by simp
qed

theorem load_trends_csv_value_entries_witness:
  "map_sum id timestamps (load_trends_csv ''ok.csv'' (with_values (\<lambda>x. Blank) blank_raw))
     = map_sum id timestamps (load_trends_csv ''ok.csv'' blank_raw) \<and>
   (\<exists>s i. load_trends_csv ''ok.csv'' blank_raw = Inr s \<and>
          to_numeric (snd (blank_raw ! 1) ! 2) = None \<and>
          (i, (24240, 0), [None]) \<in> set (body s))"
proof -
  let ?ts = "[iso_date (24241, 0), Blank, iso_date (24240, 0), iso_date (24241, 0)]
             :: (date, int) cell list"
  let ?vs = "[number 5, number 6, words, number 8] :: (date, int) cell list"
  let ?time = "[Some (24241, 0), None, Some (24240, 0), Some (24241, 0)] :: date option list"
  let ?s = "\<lparr>labels = [''Fashion Trend''],
            body = [(0, (24240, 0), [None]), (1, (24241, 0), [Some 5])]\<rparr> :: (date, int) frame"
  have n: "to_numeric (snd (blank_raw ! 1) ! 2) = None"
    by (simp add: blank_raw_def words_def)
  have v: "to_numeric (?vs ! 2) = None" by (simp add: words_def)
  have f: "\<forall>j<2. ?time ! j \<noteq> Some (24240, 0)"
    by (simp add: less_Suc_eq numeral_2_eq_2)
  have "\<exists>i. (i, (24240, 0), [to_numeric (?vs ! 2)]) \<in> set (body ?s)"
    using load_trends_csv_value_entries
      [of "''ok.csv''" "\<lambda>x. Blank" blank_raw ?s "''Time''" ?ts "''fashion  trend''" ?vs ?time 2
          "(24240, 0)"]
      blank_raw_load blank_raw_columns blank_raw_times f by simp
  then have "\<exists>i. (i, (24240, 0), [None]) \<in> set (body ?s)" unfolding v .
  moreover have "map_sum id timestamps (load_trends_csv ''ok.csv'' (with_values (\<lambda>x. Blank) blank_raw))
     = map_sum id timestamps (load_trends_csv ''ok.csv'' blank_raw)"
    using load_trends_csv_value_entries
      [of "''ok.csv''" "\<lambda>x. Blank" blank_raw ?s "''Time''" ?ts "''fashion  trend''" ?vs ?time 2
          "(24240, 0)"]
    by blast
  ultimately show ?thesis using blank_raw_load n by blast
qed

section \<open>Properties of the merge\<close>

lemma length_timestamps: "length (timestamps f) = length (body f)"
  by (simp add: timestamps_def)

lemma joined_timestamps:
  "map fst (concat (map (\<lambda>(i, t, vs). map (\<lambda>(j, u, ws). (t, vs @ ws))
                                 (filter (\<lambda>x. row_time x = t) rs)) ls))
   = concat (map (\<lambda>t. map (\<lambda>x. t) (filter (\<lambda>x. row_time x = t) rs)) (map row_time ls))"
proof (induction ls)
  case Nil
  show ?case by simp
next
  case (Cons r ls)
  obtain i t vs where r: "r = (i, t, vs)" by (cases r) auto
  have "map fst (map (\<lambda>(j, u, ws). (t, vs @ ws)) (filter (\<lambda>x. row_time x = t) rs))
        = map (\<lambda>x. t) (filter (\<lambda>x. row_time x = t) rs)"
    by (simp add: case_prod_unfold comp_def)
  then show ?case using Cons.IH r by (simp add: row_time_def)
qed

lemma timestamps_join:
  assumes "body m = join_rows l r"
  shows "timestamps m =
     concat (map (\<lambda>t. map (\<lambda>x. t) (filter (\<lambda>x. row_time x = t) (body r))) (timestamps l))"
proof -
  have "timestamps m =
        map fst (concat (map (\<lambda>(i, t, vs). map (\<lambda>(j, u, ws). (t, vs @ ws))
                                 (filter (\<lambda>x. row_time x = t) (body r))) (body l)))"
    unfolding timestamps_row_time assms join_rows_def by (simp add: times_range_index)
  then show ?thesis unfolding joined_timestamps timestamps_row_time .
qed

lemma set_map_const: "xs \<noteq> [] \<Longrightarrow> set (map (\<lambda>x. t) xs) = {t}"
  by (cases xs) auto

lemma set_matches:
  "set (map (\<lambda>x. t) (filter (\<lambda>x. row_time x = t) rs))
   = (if t \<in> set (map row_time rs) then {t} else {})"
proof (cases "t \<in> set (map row_time rs)")
  case True
  then have "filter (\<lambda>x. row_time x = t) rs \<noteq> []"
    by (auto simp: filter_empty_conv)
  then have "set (map (\<lambda>x. t) (filter (\<lambda>x. row_time x = t) rs)) = {t}"
    by (rule set_map_const)
  then show ?thesis using True by simp
next
  case False
  then have "filter (\<lambda>x. row_time x = t) rs = []"
    by (auto simp: filter_empty_conv)
  then show ?thesis using False by simp
qed

lemma set_timestamps_join:
  assumes "body m = join_rows l r"
  shows "set (timestamps m) = set (timestamps l) \<inter> set (timestamps r)"
proof -
  have "set (timestamps m)
        = (\<Union>t\<in>set (timestamps l). if t \<in> set (map row_time (body r)) then {t} else {})"
    unfolding timestamps_join [OF assms] set_concat
    using set_matches [of _ "body r"] by (simp only: set_map image_image)
  also have "\<dots> = set (timestamps l) \<inter> set (map row_time (body r))"
    by (auto split: if_splits)
  finally show ?thesis unfolding timestamps_row_time .
qed

lemma filter_key_distinct:
  "distinct (map k xs) \<Longrightarrow>
   map (\<lambda>x. a) (filter (\<lambda>x. k x = a) xs) = (if a \<in> set (map k xs) then [a] else [])"
  by (induction xs) (auto simp: filter_empty_conv)

lemma timestamps_join_distinct:
  assumes "body m = join_rows l r" and "distinct (timestamps r)"
  shows "timestamps m = filter (\<lambda>t. t \<in> set (timestamps r)) (timestamps l)"
proof -
  have d: "distinct (map row_time (body r))" using assms(2) unfolding timestamps_row_time .
  have "concat (map (\<lambda>t. map (\<lambda>x. t) (filter (\<lambda>x. row_time x = t) (body r))) ts)
        = filter (\<lambda>t. t \<in> set (map row_time (body r))) ts" for ts
    by (induction ts) (simp_all add: filter_key_distinct [OF d])
  from this [of "map row_time (body l)"] show ?thesis
    unfolding timestamps_join [OF assms(1)] unfolding timestamps_row_time .
qed

lemma items_overlap_disjoint:
  "set left \<inter> set right = {} \<Longrightarrow> items_overlap_with_suffix left right = Inr (left, right)"
proof -
  assume "set left \<inter> set right = {}"
  then have "filter (\<lambda>x. x \<in> set right) left = []"
    by (auto simp: filter_empty_conv)
  then show ?thesis by (simp add: items_overlap_with_suffix_def)
qed

lemma items_overlap_error: "items_overlap_with_suffix left right = Inl e \<Longrightarrow> e = MergeError"
  by (auto simp: items_overlap_with_suffix_def Let_def split: if_splits)

lemma items_overlap_length:
  "items_overlap_with_suffix left right = Inr (ll, rl) \<Longrightarrow>
   length ll = length left \<and> length rl = length right"
  by (auto simp: items_overlap_with_suffix_def Let_def split: if_splits)

lemma merge_inner_Inr:
  assumes "merge_inner l r = Inr m"
  shows "\<exists>ll rl. items_overlap_with_suffix (labels l) (labels r) = Inr (ll, rl) \<and>
                 labels m = ll @ rl \<and> body m = join_rows l r"
proof (cases "items_overlap_with_suffix (labels l) (labels r)")
  case (Inl e)
  then show ?thesis using assms by (simp add: merge_inner_def)
next
  case (Inr p)
  obtain ll rl where p: "p = (ll, rl)" by (cases p) auto
  have "m = \<lparr>labels = ll @ rl, body = join_rows l r\<rparr>"
    using assms Inr p by (simp add: merge_inner_def)
  then show ?thesis using Inr p by simp
qed

lemma merge_inner_body: "merge_inner l r = Inr m \<Longrightarrow> body m = join_rows l r"
  using merge_inner_Inr by blast

lemma merge_inner_error: "merge_inner l r = Inl e \<Longrightarrow> e = MergeError"
  by (cases "items_overlap_with_suffix (labels l) (labels r)")
     (auto simp: merge_inner_def dest: items_overlap_error)

lemma merge_inner_count:
  "merge_inner l r = Inr m \<Longrightarrow> length (labels m) = length (labels l) + length (labels r)"
  using merge_inner_Inr [of l r m] items_overlap_length by fastforce

lemma merge_inner_disjoint:
  assumes "set (labels l) \<inter> set (labels r) = {}"
  shows "\<exists>m. merge_inner l r = Inr m \<and> labels m = labels l @ labels r"
  by (simp add: merge_inner_def items_overlap_disjoint [OF assms])

lemma merge_from_Cons:
  "merge_from d (y # ys) = Inr m \<Longrightarrow> \<exists>d'. merge_inner d y = Inr d' \<and> merge_from d' ys = Inr m"
  by (cases "merge_inner d y") simp_all

lemma set_timestamps_merge_from:
  "merge_from d ds = Inr m \<Longrightarrow>
   set (timestamps m) = set (timestamps d) \<inter> (\<Inter>x\<in>set ds. set (timestamps x))"
proof (induction ds arbitrary: d)
  case Nil
  then show ?case by simp
next
  case (Cons y ys)
  obtain d' where d': "merge_inner d y = Inr d'" "merge_from d' ys = Inr m"
    using merge_from_Cons [OF Cons.prems] by blast
  have "set (timestamps d') = set (timestamps d) \<inter> set (timestamps y)"
    using merge_inner_body [OF d'(1)] by (rule set_timestamps_join)
  then show ?case using Cons.IH [OF d'(2)] by auto
qed

lemma timestamps_merge_from_distinct:
  "(\<And>x. x \<in> set ds \<Longrightarrow> distinct (timestamps x)) \<Longrightarrow> merge_from d ds = Inr m \<Longrightarrow>
   timestamps m = filter (\<lambda>t. \<forall>x\<in>set ds. t \<in> set (timestamps x)) (timestamps d)"
proof (induction ds arbitrary: d)
  case Nil
  then show ?case by simp
next
  case (Cons y ys)
  obtain d' where d': "merge_inner d y = Inr d'" "merge_from d' ys = Inr m"
    using merge_from_Cons [OF Cons.prems(2)] by blast
  have "timestamps m
        = filter (\<lambda>t. \<forall>x\<in>set ys. t \<in> set (timestamps x)) (timestamps d')"
    using Cons.prems(1) d'(2) by (intro Cons.IH) simp_all
  also have "timestamps d' = filter (\<lambda>t. t \<in> set (timestamps y)) (timestamps d)"
    using merge_inner_body [OF d'(1)] Cons.prems(1)
    by (intro timestamps_join_distinct) simp_all
  finally show ?case by (simp add: conj_commute)
qed

lemma merge_from_count:
  "merge_from d ds = Inr m \<Longrightarrow>
   length (labels m) = length (labels d) + length (concat (map labels ds))"
proof (induction ds arbitrary: d)
  case Nil
  then show ?case by simp
next
  case (Cons y ys)
  obtain d' where d': "merge_inner d y = Inr d'" "merge_from d' ys = Inr m"
    using merge_from_Cons [OF Cons.prems] by blast
  show ?case using Cons.IH [OF d'(2)] merge_inner_count [OF d'(1)] by simp
qed

lemma merge_from_error: "merge_from d ds = Inl e \<Longrightarrow> e = MergeError"
proof (induction ds arbitrary: d)
  case Nil
  then show ?case by simp
next
  case (Cons y ys)
  show ?case
  proof (cases "merge_inner d y")
    case (Inl e')
    then show ?thesis using Cons.prems merge_inner_error by fastforce
  next
    case (Inr d')
    then show ?thesis using Cons.prems Cons.IH [of d'] by simp
  qed
qed

lemma merge_from_distinct_labels:
  "distinct (labels d @ concat (map labels ds)) \<Longrightarrow>
   \<exists>m. merge_from d ds = Inr m \<and> labels m = labels d @ concat (map labels ds)"
proof (induction ds arbitrary: d)
  case Nil
  then show ?case by simp
next
  case (Cons y ys)
  have "set (labels d) \<inter> set (labels y) = {}" using Cons.prems by auto
  then obtain d' where d': "merge_inner d y = Inr d'" "labels d' = labels d @ labels y"
    using merge_inner_disjoint by blast
  have "distinct (labels d' @ concat (map labels ys))"
    using Cons.prems unfolding d'(2) by simp
  then obtain m where "merge_from d' ys = Inr m" "labels m = labels d' @ concat (map labels ys)"
    using Cons.IH by blast
  then show ?case using d' by simp
qed

lemma merge_frames_Inr:
  assumes "merge_frames dfs = Inr m"
  shows "\<exists>d ds acc. dfs = d # ds \<and> merge_from d ds = Inr acc \<and> labels m = labels acc \<and>
                    body m = reset_index (sort_values_time (body acc))"
proof (cases dfs)
  case Nil
  then show ?thesis using assms by simp
next
  case (Cons d ds)
  show ?thesis
  proof (cases "merge_from d ds")
    case (Inl e)
    then show ?thesis using assms Cons by simp
  next
    case (Inr acc)
    then have "m = acc\<lparr>body := reset_index (sort_values_time (body acc))\<rparr>"
      using assms Cons by simp
    then show ?thesis using Cons Inr by simp
  qed
qed

lemma timestamps_sorted_body:
  assumes "body m = reset_index (sort_values_time rs)"
  shows "timestamps m = sort (map row_time rs)"
  unfolding timestamps_row_time assms
  by (simp add: times_reset_index sort_values_time_def map_sort_key)

lemma length_sorted_body:
  assumes "body m = reset_index (sort_values_time rs)"
  shows "length (body m) = length rs"
  unfolding assms by (simp add: reset_index_def length_range_index sort_values_time_def)

lemma merge_frames_timestamps:
  assumes "merge_frames dfs = Inr m"
  shows "set (timestamps m) = (\<Inter>d\<in>set dfs. set (timestamps d)) \<and> sorted (timestamps m)"
proof -
  obtain d ds acc where h: "dfs = d # ds" "merge_from d ds = Inr acc"
    "body m = reset_index (sort_values_time (body acc))"
    using merge_frames_Inr [OF assms] by blast
  have t: "timestamps m = sort (timestamps acc)"
    using timestamps_sorted_body [OF h(3)] by (simp add: timestamps_row_time)
  have "set (timestamps m) = (\<Inter>x\<in>set dfs. set (timestamps x))"
    unfolding t h(1) by (simp add: set_timestamps_merge_from [OF h(2)])
  moreover have "sorted (timestamps m)" unfolding t by simp
  ultimately show ?thesis by blast
qed

lemma merge_frames_error:
  assumes "dfs \<noteq> []" and "merge_frames dfs = Inl e"
  shows "e = MergeError \<and> \<not> distinct (concat (map labels dfs))"
proof -
  obtain d ds where dfs: "dfs = d # ds" using assms(1) by (cases dfs) auto
  have l: "merge_from d ds = Inl e"
    using assms(2) unfolding dfs by (cases "merge_from d ds") simp_all
  then have "e = MergeError" by (rule merge_from_error)
  moreover have "\<not> distinct (concat (map labels dfs))"
  proof
    assume "distinct (concat (map labels dfs))"
    then have "distinct (labels d @ concat (map labels ds))" unfolding dfs by simp
    then show False using merge_from_distinct_labels [of d ds] l by auto
  qed
  ultimately show ?thesis by blast
qed

text \<open>
  C1. For a non-empty list of canonical series the merge either returns a table or
  raises the \<^verbatim>\<open>MergeError\<close> of pandas, which takes two series of one name. In the table
  a timestamp occurs exactly when it occurs in every series, and the timestamps ascend.
\<close>

theorem merge_frames_intersection:
  assumes "dfs \<noteq> []" and "\<forall>d\<in>set dfs. canonical_series d"
  shows "case merge_frames dfs of
           Inr m \<Rightarrow> set (timestamps m) = (\<Inter>d\<in>set dfs. set (timestamps d)) \<and>
                    sorted (timestamps m)
         | Inl e \<Rightarrow> e = MergeError \<and> \<not> distinct (concat (map labels dfs))"
proof (cases "merge_frames dfs")
  case (Inl e)
  then show ?thesis using merge_frames_error [OF assms(1)] by simp
next
  case (Inr m)
  then show ?thesis using merge_frames_timestamps by simp
qed

lemma canonical_distinct: "canonical_series f \<Longrightarrow> distinct (timestamps f)"
  by (simp add: canonical_series_def)

lemma canonical_one_label: "canonical_series f \<Longrightarrow> length (labels f) = 1"
  by (simp add: canonical_series_def)

lemma length_concat_singletons:
  "(\<And>x. x \<in> set xs \<Longrightarrow> length (f x) = 1) \<Longrightarrow> length (concat (map f xs)) = length xs"
  by (induction xs) simp_all

lemma filter_le_other:
  assumes "distinct ts" "\<And>t. t \<in> set ts \<Longrightarrow> P t \<Longrightarrow> t \<in> set us"
  shows "length (filter P ts) \<le> length us"
proof -
  have "distinct (filter P ts)" using assms(1) by simp
  then have "length (filter P ts) = card (set (filter P ts))"
    by (simp only: distinct_card)
  also have "\<dots> \<le> card (set us)"
    using assms(2) by (intro card_mono) auto
  also have "\<dots> \<le> length us" by (rule card_length)
  finally show ?thesis .
qed

lemma merge_frames_rows:
  assumes "\<forall>d\<in>set dfs. canonical_series d" and "merge_frames dfs = Inr m"
  shows "length (body m) \<le> Min ((\<lambda>d. length (body d)) ` set dfs) \<and>
         length (columns m) = length dfs + 1"
proof -
  obtain d ds acc where h: "dfs = d # ds" "merge_from d ds = Inr acc" "labels m = labels acc"
    "body m = reset_index (sort_values_time (body acc))"
    using merge_frames_Inr [OF assms(2)] by blast
  have dist: "distinct (timestamps x)" if "x \<in> set dfs" for x
    using that assms(1) by (intro canonical_distinct) simp
  have ts: "timestamps acc = filter (\<lambda>t. \<forall>x\<in>set ds. t \<in> set (timestamps x)) (timestamps d)"
    using dist h(1,2) by (intro timestamps_merge_from_distinct) simp_all
  have len: "length (body m) = length (timestamps acc)"
    unfolding length_sorted_body [OF h(4)] length_timestamps ..
  have each: "length (body m) \<le> length (body x)" if x: "x \<in> set dfs" for x
  proof (cases "x = d")
    case True
    then show ?thesis unfolding len ts by (simp add: length_timestamps [symmetric])
  next
    case False
    then have xs: "x \<in> set ds" using x h(1) by simp
    have "distinct (timestamps d)" using dist h(1) by simp
    then have "length (filter (\<lambda>t. \<forall>x\<in>set ds. t \<in> set (timestamps x)) (timestamps d))
          \<le> length (timestamps x)"
      using xs by (intro filter_le_other) auto
    then show ?thesis unfolding len ts by (simp add: length_timestamps)
  qed
  have rows: "length (body m) \<le> Min ((\<lambda>d. length (body d)) ` set dfs)"
    using each h(1) by (simp add: Min_ge_iff)
  have one: "length (labels x) = 1" if "x \<in> set dfs" for x
    using that assms(1) canonical_one_label by blast
  have "length (concat (map labels ds)) = length ds"
    by (rule length_concat_singletons) (simp add: one h(1))
  then have "length (labels acc) = length ds + 1"
    using merge_from_count [OF h(2)] one [of d] h(1) by simp
  then have cols: "length (columns m) = length dfs + 1"
    unfolding columns_def h(1) h(3) by simp
  show ?thesis using rows cols by blast
qed

text \<open>
  C5. Merging \<open>N\<close> canonical series either returns a table or raises the
  \<^verbatim>\<open>MergeError\<close> of pandas, which takes two series of one name. The table has at most
  as many rows as the shortest series and \<open>N + 1\<close> columns, \<^verbatim>\<open>Time\<close> and one per series.
\<close>

theorem merge_frames_shape:
  assumes "dfs \<noteq> []" and "\<forall>d\<in>set dfs. canonical_series d"
  shows "case merge_frames dfs of
           Inr m \<Rightarrow> length (body m) \<le> Min ((\<lambda>d. length (body d)) ` set dfs) \<and>
                    length (columns m) = length dfs + 1
         | Inl e \<Rightarrow> e = MergeError \<and> \<not> distinct (concat (map labels dfs))"
proof (cases "merge_frames dfs")
  case (Inl e)
  then show ?thesis using merge_frames_error [OF assms(1)] by simp
next
  case (Inr m)
  then show ?thesis using merge_frames_rows [OF assms(2)] by simp
qed

lemma merge_frames_ab: "merge_frames [series_a, series_b] = Inr merged_ab"
  by code_simp

lemma merge_frames_aaaa: "merge_frames [series_a, series_a, series_a, series_a] = Inl MergeError"
  by code_simp

lemma canonical_series_ab: "canonical_series series_a" "canonical_series series_b"
  by code_simp+

theorem merge_frames_intersection_witness:
  "merge_frames [series_a, series_b] = Inr merged_ab \<and>
   set (timestamps merged_ab) = set (timestamps series_a) \<inter> set (timestamps series_b) \<and>
   timestamps merged_ab = [(24241, 0), (24242, 0)] \<and>
   merge_frames [series_a, series_a, series_a, series_a] = Inl MergeError \<and>
   \<not> distinct (concat (map labels [series_a, series_a, series_a, series_a]))"
proof -
  have "case merge_frames [series_a, series_b] of
           Inr m \<Rightarrow> set (timestamps m) = (\<Inter>d\<in>set [series_a, series_b]. set (timestamps d)) \<and>
                    sorted (timestamps m)
         | Inl e \<Rightarrow> e = MergeError \<and> \<not> distinct (concat (map labels [series_a, series_b]))"
    by (rule merge_frames_intersection) (simp_all add: canonical_series_ab)
  then have 1: "set (timestamps merged_ab) = set (timestamps series_a) \<inter> set (timestamps series_b)"
    unfolding merge_frames_ab by simp
  have 2: "timestamps merged_ab = [(24241, 0), (24242, 0)]" by code_simp
  have "case merge_frames [series_a, series_a, series_a, series_a] of
           Inr m \<Rightarrow> set (timestamps m)
                      = (\<Inter>d\<in>set [series_a, series_a, series_a, series_a]. set (timestamps d)) \<and>
                    sorted (timestamps m)
         | Inl e \<Rightarrow> e = MergeError \<and>
                    \<not> distinct (concat (map labels [series_a, series_a, series_a, series_a]))"
    by (rule merge_frames_intersection) (simp_all add: canonical_series_ab)
  then have 3: "\<not> distinct (concat (map labels [series_a, series_a, series_a, series_a]))"
    unfolding merge_frames_aaaa by simp
  show ?thesis using merge_frames_ab 1 2 merge_frames_aaaa 3 by blast
qed

theorem merge_frames_shape_witness:
  "merge_frames [series_a, series_b] = Inr merged_ab \<and>
   length (body merged_ab) \<le> 3 \<and> length (columns merged_ab) = 3"
proof -
  have "case merge_frames [series_a, series_b] of
           Inr m \<Rightarrow> length (body m) \<le> Min ((\<lambda>d. length (body d)) ` set [series_a, series_b]) \<and>
                    length (columns m) = length [series_a, series_b] + 1
         | Inl e \<Rightarrow> e = MergeError \<and> \<not> distinct (concat (map labels [series_a, series_b]))"
    by (rule merge_frames_shape) (simp_all add: canonical_series_ab)
  moreover have "length (body series_a) = 3" "length (body series_b) = 3"
    by (simp_all add: series_a_def series_b_def)
  ultimately show ?thesis unfolding merge_frames_ab by simp
qed

lemma upper_of_lower: "is_lower c \<Longrightarrow> is_upper (to_upper c)"
  by (simp add: is_lower_def is_upper_def to_upper_def mod_if, arith)

lemma lower_of_upper: "is_upper c \<Longrightarrow> is_lower (to_lower c)"
  by (simp add: is_lower_def is_upper_def to_lower_def mod_if)

lemma upper_not_lower: "is_upper c \<Longrightarrow> \<not> is_lower c"
  by (simp add: is_lower_def is_upper_def)

lemma small_after_letter_title: "small_after_letter prev (title_from prev s)"
proof (induction s arbitrary: prev)
  case Nil
  show ?case by simp
next
  case (Cons c cs)
  show ?case
  proof (cases "is_lower c")
    case True
    then show ?thesis
      using Cons [of True] upper_of_lower [OF True] upper_not_lower by auto
  next
    case False
    show ?thesis
    proof (cases "is_upper c")
      case True
      then show ?thesis
        using False Cons [of True] lower_of_upper [OF True] by auto
    next
      case nu: False
      then show ?thesis using False Cons [of False] by simp
    qed
  qed
qed

lemma small_after_letter_suffix:
  "is_lower x \<Longrightarrow> \<not> is_lower u \<Longrightarrow> \<not> is_upper u \<Longrightarrow> \<not> small_after_letter prev (q @ [u, x])"
  by (induction q arbitrary: prev) simp_all

lemma suffixed_append:
  "suffixed l \<longleftrightarrow> (\<exists>q. l = q @ ''_x'' \<or> l = q @ ''_y'')"
proof
  assume "suffixed l"
  then consider "take 2 (rev l) = ''x_''" | "take 2 (rev l) = ''y_''"
    unfolding suffixed_def by blast
  then show "\<exists>q. l = q @ ''_x'' \<or> l = q @ ''_y''"
  proof cases
    case 1
    have "rev l = take 2 (rev l) @ drop 2 (rev l)" by simp
    then have "rev (rev l) = rev (''x_'' @ drop 2 (rev l))" unfolding 1 by simp
    then have "l = rev (drop 2 (rev l)) @ ''_x''" by simp
    then show ?thesis by blast
  next
    case 2
    have "rev l = take 2 (rev l) @ drop 2 (rev l)" by simp
    then have "rev (rev l) = rev (''y_'' @ drop 2 (rev l))" unfolding 2 by simp
    then have "l = rev (drop 2 (rev l)) @ ''_y''" by simp
    then show ?thesis by blast
  qed
next
  assume "\<exists>q. l = q @ ''_x'' \<or> l = q @ ''_y''"
  then show "suffixed l" by (auto simp: suffixed_def)
qed

lemma title_not_suffixed: "\<not> suffixed (title s)"
proof
  assume "suffixed (title s)"
  then obtain q where "title s = q @ ''_x'' \<or> title s = q @ ''_y''"
    unfolding suffixed_append by blast
  then have "\<not> small_after_letter False (title s)"
    using small_after_letter_suffix [of "CHR ''x''" "CHR ''_''" False q]
      small_after_letter_suffix [of "CHR ''y''" "CHR ''_''" False q]
    by (auto simp: is_lower_def is_upper_def)
  then show False unfolding title_def using small_after_letter_title by blast
qed

lemma suffixed_x: "suffixed (q @ ''_x'')" and suffixed_y: "suffixed (q @ ''_y'')"
  by (simp_all add: suffixed_def)

lemma fresh_duplicates_none:
  "length new = length old \<Longrightarrow> distinct old \<Longrightarrow> set old \<inter> set seen_old = {} \<Longrightarrow>
   fresh_duplicates seen_new seen_old (zip new old) = [] \<Longrightarrow>
   distinct new \<and> set new \<inter> set seen_new = {}"
proof (induction new arbitrary: old seen_new seen_old)
  case Nil
  then show ?case by simp
next
  case (Cons n new)
  then obtain a old' where old: "old = a # old'" by (cases old) auto
  have a: "length new = length old'" "distinct old'" "set old' \<inter> set (a # seen_old) = {}"
    "a \<notin> set seen_old"
    using Cons.prems(1,2,3) old by auto
  have b: "n \<notin> set seen_new" "fresh_duplicates (n # seen_new) (a # seen_old) (zip new old') = []"
    using Cons.prems(4) a(4) old by (auto split: if_splits)
  have "distinct new \<and> set new \<inter> set (n # seen_new) = {}"
    using a(1,2,3) b(2) by (rule Cons.IH)
  then show ?case using b(1) by auto
qed

lemma not_suffixed_y: "\<not> suffixed r \<Longrightarrow> q @ ''_y'' \<noteq> r"
  using suffixed_y [of q] by (cases "q @ ''_y'' = r") (simp_all only: not_False_eq_True)

lemma not_suffixed_x: "\<not> suffixed r \<Longrightarrow> q @ ''_x'' \<noteq> r"
  using suffixed_x [of q] by (cases "q @ ''_x'' = r") (simp_all only: not_False_eq_True)

lemma x_not_y: "q @ ''_x'' \<noteq> r @ ''_y''"
  by simp

lemma items_overlap_single:
  assumes "r \<in> set L"
    and "items_overlap_with_suffix L [r] = Inr (ll, rl)"
  shows "ll = map (\<lambda>x. if x = r then x @ ''_x'' else x) L \<and> rl = [r @ ''_y''] \<and>
         fresh_duplicates [] [] (zip (map (\<lambda>x. if x = r then x @ ''_x'' else x) L) L) = []"
proof -
  let ?tr = "filter (\<lambda>x. x \<in> set [r]) L"
  let ?f = "\<lambda>x. if x = r then x @ ''_x'' else x"
  have ne: "?tr \<noteq> []" using assms(1) by (simp add: filter_empty_conv)
  have s: "set ?tr = {r}" using assms(1) by auto
  have f: "(\<lambda>x. if x \<in> set ?tr then x @ ''_x'' else x) = ?f"
    unfolding s by (rule ext) simp
  have g: "map (\<lambda>x. if x \<in> set ?tr then x @ ''_y'' else x) [r] = [r @ ''_y'']"
    unfolding s by simp
  have "items_overlap_with_suffix L [r] =
          (if fresh_duplicates [] [] (zip (map ?f L) L) @
              fresh_duplicates [] [] (zip [r @ ''_y''] [r]) = []
           then Inr (map ?f L, [r @ ''_y'']) else Inl MergeError)"
    unfolding items_overlap_with_suffix_def Let_def f g using ne by (simp only: if_False)
  then have "(if fresh_duplicates [] [] (zip (map ?f L) L) = []
              then Inr (map ?f L, [r @ ''_y'']) else Inl MergeError) = Inr (ll, rl)"
    using assms(2) by simp
  then show ?thesis
    by (cases "fresh_duplicates [] [] (zip (map ?f L) L) = []") simp_all
qed

lemma labels_step:
  assumes dL: "distinct L"
    and inv: "\<And>q. \<not> suffixed q \<Longrightarrow> q @ ''_y'' \<in> set L \<Longrightarrow> q @ ''_x'' \<in> set L"
    and r: "\<not> suffixed r"
    and ok: "items_overlap_with_suffix L [r] = Inr (ll, rl)"
  shows "distinct (ll @ rl) \<and>
         (\<forall>q. \<not> suffixed q \<longrightarrow> q @ ''_y'' \<in> set (ll @ rl) \<longrightarrow> q @ ''_x'' \<in> set (ll @ rl))"
proof (cases "r \<in> set L")
  case False
  then have "items_overlap_with_suffix L [r] = Inr (L, [r])"
    by (intro items_overlap_disjoint) simp
  then have e: "ll = L" "rl = [r]" using ok by simp_all
  have d: "distinct (L @ [r])" using dL False by simp
  have i: "q @ ''_x'' \<in> set (L @ [r])"
    if q: "\<not> suffixed q" and m: "q @ ''_y'' \<in> set (L @ [r])" for q
  proof -
    have "q @ ''_y'' \<in> set L" using m not_suffixed_y [OF r, of q] by simp
    then have "q @ ''_x'' \<in> set L" using q by (rule inv [rotated])
    then show ?thesis by simp
  qed
  show ?thesis unfolding e
    by (intro conjI allI impI) (rule d, rule i)
next
  case True
  let ?f = "\<lambda>x. if x = r then x @ ''_x'' else x"
  have e: "ll = map ?f L" "rl = [r @ ''_y'']"
    "fresh_duplicates [] [] (zip (map ?f L) L) = []"
    using items_overlap_single [OF True ok] by blast+
  have dll: "distinct (map ?f L)"
    using fresh_duplicates_none [of "map ?f L" L "[]" "[]"] dL e(3) by simp
  have "?f r \<in> ?f ` set L" using True by (rule imageI)
  then have rx: "r @ ''_x'' \<in> set (map ?f L)" by simp
  have nrx: "r @ ''_x'' \<notin> set L"
  proof
    assume a: "r @ ''_x'' \<in> set L"
    have inj: "inj_on ?f (set L)" using dll by (simp only: distinct_map)
    have fe: "?f r = ?f (r @ ''_x'')" by simp
    have "r = r @ ''_x''"
      using inj_onD [of ?f "set L" r "r @ ''_x''", OF inj fe True a] .
    then have "''_x'' = ([] :: string)" by (simp only: self_append_conv)
    then show False by simp
  qed
  have nry: "r @ ''_y'' \<notin> set L"
  proof
    assume "r @ ''_y'' \<in> set L"
    then have "r @ ''_x'' \<in> set L" using r by (rule inv [rotated])
    then show False using nrx by simp
  qed
  have nry': "r @ ''_y'' \<notin> set (map ?f L)"
  proof
    assume "r @ ''_y'' \<in> set (map ?f L)"
    then have "r @ ''_y'' \<in> ?f ` set L" by (simp only: set_map)
    then obtain x where x: "r @ ''_y'' = ?f x" "x \<in> set L" by (rule imageE)
    show False
    proof (cases "x = r")
      case True
      then show ?thesis using x(1) by simp
    next
      case False
      then have "r @ ''_y'' = x" using x(1) by simp
      then show ?thesis using x(2) nry by simp
    qed
  qed
  have d: "distinct (map ?f L @ [r @ ''_y''])" using dll nry' by simp
  have i: "q @ ''_x'' \<in> set (map ?f L @ [r @ ''_y''])"
    if q: "\<not> suffixed q" and m: "q @ ''_y'' \<in> set (map ?f L @ [r @ ''_y''])" for q
  proof (cases "q = r")
    case True
    then show ?thesis using rx by simp
  next
    case False
    then have "q @ ''_y'' \<in> set (map ?f L)" using m by simp
    then have "q @ ''_y'' \<in> ?f ` set L" by (simp only: set_map)
    then obtain x where x: "q @ ''_y'' = ?f x" "x \<in> set L" by (rule imageE)
    have "x \<noteq> r"
    proof
      assume "x = r"
      then have "q @ ''_y'' = r @ ''_x''" using x(1) by simp
      then show False by simp
    qed
    then have "q @ ''_y'' \<in> set L" using x by simp
    then have qx: "q @ ''_x'' \<in> set L" using q by (rule inv [rotated])
    have "?f (q @ ''_x'') \<in> ?f ` set L" using qx by (rule imageI)
    then have "q @ ''_x'' \<in> set (map ?f L)"
      using not_suffixed_x [OF r, of q] by simp
    then show ?thesis by simp
  qed
  show ?thesis unfolding e(1,2)
    by (intro conjI allI impI) (rule d, rule i)
qed

lemma merge_from_labels_distinct:
  assumes "\<And>x. x \<in> set ds \<Longrightarrow> \<exists>r. labels x = [r] \<and> \<not> suffixed r"
    and "distinct (labels d)"
    and "\<And>q. \<not> suffixed q \<Longrightarrow> q @ ''_y'' \<in> set (labels d) \<Longrightarrow> q @ ''_x'' \<in> set (labels d)"
    and "merge_from d ds = Inr m"
  shows "distinct (labels m)"
  using assms
proof (induction ds arbitrary: d)
  case Nil
  then show ?case by simp
next
  case (Cons y ys)
  obtain d' where d': "merge_inner d y = Inr d'" "merge_from d' ys = Inr m"
    using merge_from_Cons [OF Cons.prems(4)] by blast
  obtain r where r: "labels y = [r]" "\<not> suffixed r" using Cons.prems(1) by auto
  obtain ll rl where l: "items_overlap_with_suffix (labels d) [r] = Inr (ll, rl)"
    "labels d' = ll @ rl"
    using merge_inner_Inr [OF d'(1)] unfolding r(1) by blast
  have s: "distinct (ll @ rl) \<and>
         (\<forall>q. \<not> suffixed q \<longrightarrow> q @ ''_y'' \<in> set (ll @ rl) \<longrightarrow> q @ ''_x'' \<in> set (ll @ rl))"
    using Cons.prems(2,3) r(2) l(1) by (rule labels_step)
  show ?case
  proof (rule Cons.IH [of d'])
    show "\<And>x. x \<in> set ys \<Longrightarrow> \<exists>r. labels x = [r] \<and> \<not> suffixed r"
      using Cons.prems(1) by simp
    show "distinct (labels d')" unfolding l(2) using s by blast
    show "\<And>q. \<not> suffixed q \<Longrightarrow> q @ ''_y'' \<in> set (labels d') \<Longrightarrow> q @ ''_x'' \<in> set (labels d')"
      unfolding l(2) using s by blast
    show "merge_from d' ys = Inr m" by (rule d'(2))
  qed
qed

lemma canonical_label:
  assumes "canonical_series f"
  shows "\<exists>r. labels f = [r] \<and> r \<noteq> ''Time'' \<and> \<not> suffixed r"
proof -
  have "length (labels f) = 1" using assms by (simp add: canonical_series_def)
  then obtain r where r: "labels f = [r]"
    by (cases "labels f") auto
  then show ?thesis using assms by (simp add: canonical_series_def)
qed

lemma merge_frames_labels_distinct:
  assumes "\<forall>d\<in>set dfs. canonical_series d" and "merge_frames dfs = Inr m"
  shows "distinct (labels m) \<and> labels m \<noteq> []"
proof -
  obtain d ds acc where h: "dfs = d # ds" "merge_from d ds = Inr acc" "labels m = labels acc"
    using merge_frames_Inr [OF assms(2)] by blast
  obtain r where r: "labels d = [r]" "\<not> suffixed r"
    using canonical_label [of d] assms(1) h(1) by auto
  have "distinct (labels acc)"
  proof (rule merge_from_labels_distinct [of ds d acc])
    show "\<And>x. x \<in> set ds \<Longrightarrow> \<exists>r. labels x = [r] \<and> \<not> suffixed r"
      using canonical_label assms(1) h(1) by fastforce
    show "distinct (labels d)" unfolding r(1) by simp
    show "\<And>q. \<not> suffixed q \<Longrightarrow> q @ ''_y'' \<in> set (labels d) \<Longrightarrow> q @ ''_x'' \<in> set (labels d)"
      unfolding r(1) using r(2) suffixed_y by (metis empty_iff empty_set set_ConsD)
    show "merge_from d ds = Inr acc" by (rule h(2))
  qed
  moreover have "length (labels acc) = length (labels d) + length (concat (map labels ds))"
    using h(2) by (rule merge_from_count)
  ultimately show ?thesis unfolding h(3) r(1) using r(1) by auto
qed

lemma value_lists_dropna:
  "list_all (\<lambda>r. length (snd (snd r)) = n) rs \<Longrightarrow>
   list_all (\<lambda>r. length (snd (snd r)) = n) (dropna_time rs)"
  by (induction rs rule: dropna_time.induct) simp_all

lemma value_lists_converted:
  "list_all (\<lambda>r. length (snd (snd r)) = 1) (converted_rows time xs)"
  by (auto simp: list_all_iff converted_rows_def range_index_def dest!: set_zip_rightD)

lemma value_lists_canonicalise:
  assumes "list_all (\<lambda>r. length (snd (snd r)) = n) rs"
  shows "list_all (\<lambda>r. length (snd (snd r)) = n) (canonicalise rs)"
proof -
  have "\<forall>p \<in> snd ` set rs. length (snd p) = n"
    using assms by (auto simp: list_all_iff)
  moreover have "snd ` set (canonicalise rs) \<subseteq> snd ` set rs"
    unfolding rows_canonicalise by blast
  ultimately have "\<forall>p \<in> snd ` set (canonicalise rs). length (snd p) = n" by blast
  then show ?thesis by (auto simp: list_all_iff)
qed

lemma load_trends_csv_canonical:
  assumes "load_trends_csv name raw = Inr s"
  shows "canonical_series s"
proof -
  obtain c' time vs where s: "s = \<lparr>labels = [trend_name_clean c'],
             body = canonicalise (dropna_time (converted_rows time vs))\<rparr>"
    and n: "trend_name_clean c' \<noteq> ''Time''"
    using assms unfolding load_trends_csv_Inr by blast
  let ?rs = "dropna_time (converted_rows time vs)"
  have "list_all (\<lambda>r. length (snd (snd r)) = 1) (canonicalise ?rs)"
    by (intro value_lists_canonicalise value_lists_dropna value_lists_converted)
  moreover have "sorted (map row_time (canonicalise ?rs))"
    by (rule sorted_times_canonicalise)
  moreover have "distinct (map row_time (canonicalise ?rs))"
    by (rule distinct_times_canonicalise)
  moreover have "map fst (canonicalise ?rs) = [0..<length (canonicalise ?rs)]"
    unfolding canonicalise_def by (rule index_reset_index)
  moreover have "\<not> suffixed (trend_name_clean c')"
    unfolding trend_name_clean_def by (rule title_not_suffixed)
  ultimately show ?thesis
    unfolding canonical_series_def timestamps_row_time s using n by simp
qed

section \<open>Properties of the run\<close>

lemma continuity_check_empty: "body m = [] \<Longrightarrow> continuity_check m = Inl NaTRangeError"
  by (simp add: continuity_check_def timestamps_def)

lemma save_outcome:
  "save m w =
     (if ''Interest'' \<in> set (columns m)
      then (Some MeltValueNameError,
            w\<lparr>written := written w @ [(out_wide, WideTable (columns m) (map snd (body m)))]\<rparr>)
      else (None,
            w\<lparr>written := written w @
                 [(out_wide, WideTable (columns m) (map snd (body m))),
                  (out_long, LongTable [''Time'', ''Trend'', ''Interest''] (melt_rows m))]\<rparr>))"
  by (simp add: save_def melt_def to_csv_def Let_def)

lemma save_error: "fst (save m w) = Some e \<Longrightarrow> \<not> fatal_error e"
  by (simp add: save_outcome split: if_splits)

lemma check_and_save_fatal:
  assumes "fst (check_and_save m w) = Some e" and "fatal_error e"
  shows "snd (check_and_save m w) = w"
proof (cases "continuity_check m")
  case (Inl a)
  then show ?thesis by (simp add: check_and_save_def)
next
  case (Inr warnings)
  then have "fst (save m (w\<lparr>console := console w @ warnings\<rparr>)) = Some e"
    using assms(1) by (simp add: check_and_save_def)
  then have "\<not> fatal_error e" by (rule save_error)
  then show ?thesis using assms(2) by simp
qed

lemma run_fatal_written:
  assumes "fst (run files) = Some e" and "fatal_error e"
  shows "written (snd (run files)) = []"
proof (cases "length files < 4")
  case True
  then show ?thesis by (simp add: run_def)
next
  case long: False
  show ?thesis
  proof (cases "load_all files")
    case (Inl a)
    then show ?thesis using long by (simp add: run_def)
  next
    case (Inr dfs)
    show ?thesis
    proof (cases "merge_frames dfs")
      case (Inl a)
      then show ?thesis using long Inr by (simp add: run_def)
    next
      case m: (Inr merged)
      let ?w = "\<lparr>written = [],
                 console = [FoundRawCSVs (map fst files), FoundCSVs (map fst files)]\<rparr> :: 'a world"
      have r: "run files = check_and_save merged ?w"
        using long Inr m by (simp add: run_def)
      then have "snd (run files) = ?w"
        using assms check_and_save_fatal [of merged ?w e] by simp
      then show ?thesis by simp
    qed
  qed
qed

text \<open>
  C9. With fewer than four files the run ends at once in the error that reports the
  expected count 4, the count found and the file names, and nothing is written. An error
  of a load (a missing \<^verbatim>\<open>Time\<close> column, a number of value columns other than one, among
  others) ends the run with that error. Whenever the run ends in one of the three fatal
  errors (too few files, no \<^verbatim>\<open>Time\<close> column, not exactly one value column), no file has
  been written.
\<close>

theorem run_fatal_errors_write_nothing:
  "(length files < 4 \<longrightarrow>
      run files = (Some (InsufficientInputFiles 4 (length files) (map fst files)),
                   \<lparr>written = [], console = []\<rparr>)) \<and>
   (4 \<le> length files \<and> load_all files = Inl e \<longrightarrow> fst (run files) = Some e) \<and>
   (fst (run files) = Some e \<and> fatal_error e \<longrightarrow> written (snd (run files)) = [])"
proof (intro conjI impI)
  assume "length files < 4"
  then show "run files = (Some (InsufficientInputFiles 4 (length files) (map fst files)),
                   \<lparr>written = [], console = []\<rparr>)"
    by (simp add: run_def)
next
  assume "4 \<le> length files \<and> load_all files = Inl e"
  then show "fst (run files) = Some e" by (simp add: run_def)
next
  assume "fst (run files) = Some e \<and> fatal_error e"
  then show "written (snd (run files)) = []" using run_fatal_written by blast
qed

theorem run_fatal_errors_write_nothing_witness:
  "run (take 3 files_disjoint) =
     (Some (InsufficientInputFiles 4 3
        [''time_series_a.csv'', ''time_series_b.csv'', ''time_series_c.csv'']),
      \<lparr>written = [], console = []\<rparr>) \<and>
   fst (run files_no_time) = Some (MissingTimeColumn ''time_series_b.csv'' [''Date'', ''b'']) \<and>
   written (snd (run files_no_time)) = [] \<and>
   fst (run files_two_values) = Some (AmbiguousValueColumn ''time_series_d.csv'' [''d'', ''e'']) \<and>
   written (snd (run files_two_values)) = []"
proof -
  have n: "length (take 3 files_disjoint) < 4" by simp
  have names: "map fst (take 3 files_disjoint)
               = [''time_series_a.csv'', ''time_series_b.csv'', ''time_series_c.csv'']"
    by code_simp
  have len: "length (take 3 files_disjoint) = 3" by code_simp
  have 1: "run (take 3 files_disjoint) =
     (Some (InsufficientInputFiles 4 3
        [''time_series_a.csv'', ''time_series_b.csv'', ''time_series_c.csv'']),
      \<lparr>written = [], console = []\<rparr>)"
    using run_fatal_errors_write_nothing [of "take 3 files_disjoint"] n
    unfolding names len by blast
  have l2: "4 \<le> length files_no_time \<and>
            load_all files_no_time = Inl (MissingTimeColumn ''time_series_b.csv'' [''Date'', ''b''])"
    by code_simp
  have 2: "fst (run files_no_time) = Some (MissingTimeColumn ''time_series_b.csv'' [''Date'', ''b''])"
    using run_fatal_errors_write_nothing [of files_no_time] l2 by blast
  have f2: "fatal_error (MissingTimeColumn ''time_series_b.csv'' [''Date'', ''b''])" by simp
  have 3: "written (snd (run files_no_time)) = []"
    using run_fatal_errors_write_nothing [of files_no_time] 2 f2 by blast
  have l4: "4 \<le> length files_two_values \<and>
            load_all files_two_values
              = Inl (AmbiguousValueColumn ''time_series_d.csv'' [''d'', ''e''])"
    by code_simp
  have 4: "fst (run files_two_values)
           = Some (AmbiguousValueColumn ''time_series_d.csv'' [''d'', ''e''])"
    using run_fatal_errors_write_nothing [of files_two_values] l4 by blast
  have f4: "fatal_error (AmbiguousValueColumn ''time_series_d.csv'' [''d'', ''e''])" by simp
  have 5: "written (snd (run files_two_values)) = []"
    using run_fatal_errors_write_nothing [of files_two_values] 4 f4 by blast
  show ?thesis using 1 2 3 4 5 by blast
qed

text \<open>An error that is none of the three: a value column headed \<^verbatim>\<open>interest\<close> makes
  the melt raise after the wide file is written.\<close>

lemma run_files_interest:
  "fst (run files_interest) = Some MeltValueNameError \<and>
   map fst (written (snd (run files_interest))) = [out_wide]"
  by code_simp

lemma run_files_same_header: "fst (run files_same_header) = Some MergeError"
  by code_simp

lemma merge_frames_distinct_labels:
  assumes "dfs \<noteq> []" and "distinct (concat (map labels dfs))"
  shows "\<exists>m. merge_frames dfs = Inr m"
proof (cases "merge_frames dfs")
  case (Inl e)
  then show ?thesis using merge_frames_error [OF assms(1)] assms(2) by blast
next
  case (Inr m)
  then show ?thesis by blast
qed

text \<open>
  C3. When two of the loaded series share no timestamp, the merge raises no error of its
  own on the empty intersection: it returns a table without rows (or, when two series carry
  the same name, stops with pandas' MergeError on the names). The check that follows the merge
  does not survive the empty table: the minimum and maximum of an empty \<^verbatim>\<open>Time\<close> column are
  NaT, \<^verbatim>\<open>pd.date_range\<close> raises, and the run ends before either file is written, against the
  comment of line 78 that the check cannot crash the script.
\<close>

theorem run_aborts_on_empty_merge:
  assumes "4 \<le> length files" and "load_all files = Inr dfs"
    and "d1 \<in> set dfs" and "d2 \<in> set dfs"
    and "set (timestamps d1) \<inter> set (timestamps d2) = {}"
  shows "case merge_frames dfs of
           Inr m \<Rightarrow>
             body m = [] \<and>
             run files = (Some NaTRangeError,
                          \<lparr>written = [],
                           console = [FoundRawCSVs (map fst files), FoundCSVs (map fst files)]\<rparr>)
         | Inl e \<Rightarrow>
             e = MergeError \<and> \<not> distinct (concat (map labels dfs)) \<and>
             run files = (Some MergeError,
                          \<lparr>written = [],
                           console = [FoundRawCSVs (map fst files), FoundCSVs (map fst files)]\<rparr>)"
proof (cases "merge_frames dfs")
  case (Inl e)
  have "dfs \<noteq> []" using assms(3) by auto
  then have e: "e = MergeError \<and> \<not> distinct (concat (map labels dfs))"
    using merge_frames_error Inl by blast
  have "run files = (Some e,
                     \<lparr>written = [],
                      console = [FoundRawCSVs (map fst files), FoundCSVs (map fst files)]\<rparr>)"
    using assms(1,2) Inl by (simp add: run_def)
  then show ?thesis using Inl e by simp
next
  case (Inr m)
  have "set (timestamps m) = (\<Inter>d\<in>set dfs. set (timestamps d))"
    using merge_frames_timestamps [OF Inr] by blast
  then have "set (timestamps m) \<subseteq> set (timestamps d1) \<inter> set (timestamps d2)"
    using assms(3,4) by blast
  then have "timestamps m = []" using assms(5) by simp
  then have e: "body m = []" by (simp add: timestamps_def)
  have "check_and_save m w = (Some NaTRangeError, w)" for w :: "'a world"
    by (simp add: check_and_save_def continuity_check_empty [OF e])
  then have "run files = (Some NaTRangeError,
                          \<lparr>written = [],
                           console = [FoundRawCSVs (map fst files), FoundCSVs (map fst files)]\<rparr>)"
    using assms(1,2) Inr by (simp add: run_def)
  with Inr e show ?thesis by simp
qed

lemma load_all_disjoint:
  "load_all files_disjoint =
     Inr [\<lparr>labels = [''A''], body = [(0, (24240, 0), [Some 1]), (1, (24241, 0), [Some 2])]\<rparr>,
          \<lparr>labels = [''B''], body = [(0, (24240, 0), [Some 3]), (1, (24241, 0), [Some 4])]\<rparr>,
          \<lparr>labels = [''C''], body = [(0, (24240, 0), [Some 5]), (1, (24241, 0), [Some 6])]\<rparr>,
          \<lparr>labels = [''D''], body = [(0, (24250, 0), [Some 7])]\<rparr>]"
  by code_simp

theorem run_aborts_on_empty_merge_witness:
  "run files_disjoint =
     (Some NaTRangeError,
      \<lparr>written = [],
       console = [FoundRawCSVs [''time_series_a.csv'', ''time_series_b.csv'',
                                ''time_series_c.csv'', ''time_series_d.csv''],
                  FoundCSVs [''time_series_a.csv'', ''time_series_b.csv'',
                             ''time_series_c.csv'', ''time_series_d.csv'']]\<rparr>)"
proof -
  let ?c = "\<lparr>labels = [''C''], body = [(0, (24240, 0), [Some 5]), (1, (24241, 0), [Some 6])]\<rparr>
            :: (date, int) frame"
  let ?d = "\<lparr>labels = [''D''], body = [(0, (24250, 0), [Some 7])]\<rparr> :: (date, int) frame"
  have n: "4 \<le> length files_disjoint" by code_simp
  have names: "map fst files_disjoint = [''time_series_a.csv'', ''time_series_b.csv'',
                                ''time_series_c.csv'', ''time_series_d.csv'']"
    by code_simp
  have i: "set (timestamps ?c) \<inter> set (timestamps ?d) = {}"
    by (simp add: timestamps_def)
  let ?dfs = "[\<lparr>labels = [''A''], body = [(0, (24240, 0), [Some 1]), (1, (24241, 0), [Some 2])]\<rparr>,
          \<lparr>labels = [''B''], body = [(0, (24240, 0), [Some 3]), (1, (24241, 0), [Some 4])]\<rparr>,
          ?c, ?d]"
  have c: "?c \<in> set ?dfs" and d: "?d \<in> set ?dfs" by simp_all
  have l: "distinct (concat (map labels ?dfs))" by simp
  have t: "case merge_frames ?dfs of
           Inr m \<Rightarrow>
             body m = [] \<and>
             run files_disjoint = (Some NaTRangeError,
                          \<lparr>written = [],
                           console = [FoundRawCSVs (map fst files_disjoint),
                                      FoundCSVs (map fst files_disjoint)]\<rparr>)
         | Inl e \<Rightarrow>
             e = MergeError \<and> \<not> distinct (concat (map labels ?dfs)) \<and>
             run files_disjoint = (Some MergeError,
                          \<lparr>written = [],
                           console = [FoundRawCSVs (map fst files_disjoint),
                                      FoundCSVs (map fst files_disjoint)]\<rparr>)"
    using n load_all_disjoint c d i by (rule run_aborts_on_empty_merge)
  show ?thesis
  proof (cases "merge_frames ?dfs")
    case (Inl e)
    then show ?thesis using t l by simp
  next
    case (Inr m)
    then show ?thesis using t unfolding names by simp
  qed
qed

lemma continuity_check_nonempty:
  assumes "body m \<noteq> []"
  shows "\<exists>msgs. continuity_check m = Inr msgs \<and>
           (msgs = [] \<or> msgs = [WarningNotMonthly] \<or>
            (\<exists>missing. missing \<noteq> [] \<and>
               msgs = [WarningNotMonthly, MissingMonths (take 10 missing) (10 < length missing)]))"
proof -
  obtain t ts where t: "timestamps m = t # ts"
    using assms by (cases "timestamps m") (auto simp: timestamps_def)
  obtain expected where e: "date_range (series_min (timestamps m)) (series_max (timestamps m))
                            = Inr expected"
    unfolding t by simp
  let ?missing = "difference expected (timestamps m)"
  show ?thesis
  proof (cases "length expected \<noteq> length (body m) \<or> timestamps m \<noteq> expected")
    case False
    then have "continuity_check m = Inr []"
      unfolding continuity_check_def e by simp
    then show ?thesis by simp
  next
    case w: True
    show ?thesis
    proof (cases "?missing = []")
      case True
      then have "continuity_check m = Inr [WarningNotMonthly]"
        unfolding continuity_check_def e using w by (simp add: Let_def)
      then show ?thesis by simp
    next
      case False
      then have "continuity_check m
                 = Inr [WarningNotMonthly, MissingMonths (take 10 ?missing) (10 < length ?missing)]"
        unfolding continuity_check_def e using w by (simp add: Let_def)
      then show ?thesis using False by blast
    qed
  qed
qed

text \<open>
  C10. The check and the two writes, from any merged table and any state of the files.
  On a table without rows the check raises and nothing is written. On a table with rows
  the check returns, the wide file holds the table as it was, and the console gains
  nothing, the warning alone, or the warning and one line of missing months that names
  the first ten at most and is marked as cut exactly when there are more than ten; the
  long file holds the melt of the table, unless a column is named \<^verbatim>\<open>Interest\<close>, when
  the melt raises after the wide file is written.
\<close>

theorem check_and_save_outcome:
  "(body m = [] \<longrightarrow> check_and_save m w = (Some NaTRangeError, w)) \<and>
   (body m \<noteq> [] \<and> ''Interest'' \<notin> set (columns m) \<longrightarrow>
      (\<exists>msgs. check_and_save m w =
                 (None, \<lparr>written = written w @
                           [(out_wide, WideTable (columns m) (map snd (body m))),
                            (out_long, LongTable [''Time'', ''Trend'', ''Interest''] (melt_rows m))],
                         console = console w @ msgs\<rparr>) \<and>
              (msgs = [] \<or> msgs = [WarningNotMonthly] \<or>
               (\<exists>missing. missing \<noteq> [] \<and>
                  msgs = [WarningNotMonthly,
                          MissingMonths (take 10 missing) (10 < length missing)])))) \<and>
   (body m \<noteq> [] \<and> ''Interest'' \<in> set (columns m) \<longrightarrow>
      (\<exists>msgs. check_and_save m w =
                 (Some MeltValueNameError,
                  \<lparr>written = written w @
                           [(out_wide, WideTable (columns m) (map snd (body m)))],
                   console = console w @ msgs\<rparr>) \<and>
              (msgs = [] \<or> msgs = [WarningNotMonthly] \<or>
               (\<exists>missing. missing \<noteq> [] \<and>
                  msgs = [WarningNotMonthly,
                          MissingMonths (take 10 missing) (10 < length missing)]))))"
proof (intro conjI impI)
  assume "body m = []"
  then show "check_and_save m w = (Some NaTRangeError, w)"
    by (simp add: check_and_save_def continuity_check_empty)
next
  assume a: "body m \<noteq> [] \<and> ''Interest'' \<notin> set (columns m)"
  then obtain msgs where msgs: "continuity_check m = Inr msgs"
    "msgs = [] \<or> msgs = [WarningNotMonthly] \<or>
            (\<exists>missing. missing \<noteq> [] \<and>
               msgs = [WarningNotMonthly, MissingMonths (take 10 missing) (10 < length missing)])"
    using continuity_check_nonempty by blast
  have "check_and_save m w =
                 (None, \<lparr>written = written w @
                           [(out_wide, WideTable (columns m) (map snd (body m))),
                            (out_long, LongTable [''Time'', ''Trend'', ''Interest''] (melt_rows m))],
                         console = console w @ msgs\<rparr>)"
    using a by (simp add: check_and_save_def msgs(1) save_outcome)
  with msgs(2) show "\<exists>msgs. check_and_save m w =
                 (None, \<lparr>written = written w @
                           [(out_wide, WideTable (columns m) (map snd (body m))),
                            (out_long, LongTable [''Time'', ''Trend'', ''Interest''] (melt_rows m))],
                         console = console w @ msgs\<rparr>) \<and>
              (msgs = [] \<or> msgs = [WarningNotMonthly] \<or>
               (\<exists>missing. missing \<noteq> [] \<and>
                  msgs = [WarningNotMonthly,
                          MissingMonths (take 10 missing) (10 < length missing)]))"
    by blast
next
  assume a: "body m \<noteq> [] \<and> ''Interest'' \<in> set (columns m)"
  then obtain msgs where msgs: "continuity_check m = Inr msgs"
    "msgs = [] \<or> msgs = [WarningNotMonthly] \<or>
            (\<exists>missing. missing \<noteq> [] \<and>
               msgs = [WarningNotMonthly, MissingMonths (take 10 missing) (10 < length missing)])"
    using continuity_check_nonempty by blast
  have "check_and_save m w =
                 (Some MeltValueNameError,
                  \<lparr>written = written w @
                           [(out_wide, WideTable (columns m) (map snd (body m)))],
                   console = console w @ msgs\<rparr>)"
    using a by (simp add: check_and_save_def msgs(1) save_outcome)
  with msgs(2) show "\<exists>msgs. check_and_save m w =
                 (Some MeltValueNameError,
                  \<lparr>written = written w @
                           [(out_wide, WideTable (columns m) (map snd (body m)))],
                   console = console w @ msgs\<rparr>) \<and>
              (msgs = [] \<or> msgs = [WarningNotMonthly] \<or>
               (\<exists>missing. missing \<noteq> [] \<and>
                  msgs = [WarningNotMonthly,
                          MissingMonths (take 10 missing) (10 < length missing)]))"
    by blast
qed

theorem check_and_save_outcome_witness:
  "check_and_save empty_merged no_output = (Some NaTRangeError, no_output) \<and>
   check_and_save gap_merged no_output =
     (None, \<lparr>written = [(out_wide, WideTable [''Time'', ''A'']
                                     [((24240, 0), [Some 1]), ((24242, 0), [Some 3])]),
                         (out_long, LongTable [''Time'', ''Trend'', ''Interest'']
                                     [((24240, 0), ''A'', Some 1), ((24242, 0), ''A'', Some 3)])],
             console = [WarningNotMonthly, MissingMonths [(24241, 0)] False]\<rparr>) \<and>
   fst (check_and_save interest_merged no_output) = Some MeltValueNameError"
proof -
  have e: "body empty_merged = []" by (simp add: empty_merged_def)
  have 1: "check_and_save empty_merged no_output = (Some NaTRangeError, no_output)"
    using check_and_save_outcome [of empty_merged no_output] e by blast
  have 2: "check_and_save gap_merged no_output =
     (None, \<lparr>written = [(out_wide, WideTable [''Time'', ''A'']
                                     [((24240, 0), [Some 1]), ((24242, 0), [Some 3])]),
                         (out_long, LongTable [''Time'', ''Trend'', ''Interest'']
                                     [((24240, 0), ''A'', Some 1), ((24242, 0), ''A'', Some 3)])],
             console = [WarningNotMonthly, MissingMonths [(24241, 0)] False]\<rparr>)"
    by code_simp
  have i: "body interest_merged \<noteq> [] \<and> ''Interest'' \<in> set (columns interest_merged)"
    by (simp add: interest_merged_def columns_def)
  have 3: "fst (check_and_save interest_merged no_output) = Some MeltValueNameError"
    using check_and_save_outcome [of interest_merged no_output] i by force
  show ?thesis using 1 2 3 by blast
qed

section \<open>Properties of the long format\<close>

lemma in_range_index: "(j, x) \<in> set (range_index xs) \<longleftrightarrow> j < length xs \<and> x = xs ! j"
proof
  assume "(j, x) \<in> set (range_index xs)"
  then show "j < length xs \<and> x = xs ! j"
    unfolding range_index_def by (auto simp: in_set_zip)
next
  assume a: "j < length xs \<and> x = xs ! j"
  then have "range_index xs ! j = (j, x)" by (simp add: nth_range_index)
  moreover have "j < length (range_index xs)" using a by (simp add: length_range_index)
  ultimately show "(j, x) \<in> set (range_index xs)" by (metis nth_mem)
qed

lemma range_index_map: "map (\<lambda>(j, x). F j x) (range_index xs) = map (\<lambda>j. F j (xs ! j)) [0..<length xs]"
  unfolding range_index_def by (rule nth_equalityI) simp_all

lemma length_concat_uniform:
  "(\<And>xs. xs \<in> set xss \<Longrightarrow> length xs = n) \<Longrightarrow> length (concat xss) = length xss * n"
  by (induction xss) simp_all

lemma nth_concat_uniform:
  "(\<And>xs. xs \<in> set xss \<Longrightarrow> length xs = n) \<Longrightarrow> j < length xss \<Longrightarrow> i < n \<Longrightarrow>
   concat xss ! (j * n + i) = xss ! j ! i"
proof (induction xss arbitrary: j)
  case Nil
  then show ?case by simp
next
  case (Cons xs xss)
  have n: "length xs = n" using Cons.prems(1) by simp
  show ?case
  proof (cases j)
    case 0
    then show ?thesis using Cons.prems(3) n by (simp add: nth_append)
  next
    case (Suc j')
    have "concat xss ! (j' * n + i) = xss ! j' ! i"
      using Cons.prems Suc by (intro Cons.IH) simp_all
    then show ?thesis using Suc n by (simp add: nth_append)
  qed
qed

lemma melt_blocks:
  "melt_rows f = concat (map (\<lambda>j. map (\<lambda>(i, t, vs). (t, labels f ! j, vs ! j)) (body f))
                        [0..<length (labels f)])"
  unfolding melt_rows_def by (simp add: range_index_map)

lemma length_melt: "length (melt_rows f) = length (body f) * length (labels f)"
proof -
  have "length (melt_rows f) = length [0..<length (labels f)] * length (body f)"
    unfolding melt_blocks by (subst length_concat_uniform [where n = "length (body f)"]) auto
  then show ?thesis by (simp add: mult.commute)
qed

lemma nth_melt:
  assumes "i < length (body f)" "j < length (labels f)"
  shows "melt_rows f ! (j * length (body f) + i)
         = (row_time (body f ! i), labels f ! j, snd (snd (body f ! i)) ! j)"
proof -
  let ?blocks = "map (\<lambda>j. map (\<lambda>(i, t, vs). (t, labels f ! j, vs ! j)) (body f))
                     [0..<length (labels f)]"
  have "concat ?blocks ! (j * length (body f) + i) = ?blocks ! j ! i"
    using assms by (intro nth_concat_uniform) auto
  also have "\<dots> = (row_time (body f ! i), labels f ! j, snd (snd (body f ! i)) ! j)"
    using assms by (simp add: row_time_def case_prod_unfold)
  finally show ?thesis unfolding melt_blocks .
qed

lemma mset_concat_head:
  "mset (concat (map (\<lambda>y. f y # g y) ys)) = mset (map f ys) + mset (concat (map g ys))"
  by (induction ys) simp_all

lemma mset_concat_swap:
  "mset (concat (map (\<lambda>x. map (\<lambda>y. f x y) ys) xs))
   = mset (concat (map (\<lambda>y. map (\<lambda>x. f x y) xs) ys))"
proof (induction xs)
  case Nil
  show ?case by (induction ys) simp_all
next
  case (Cons x xs)
  have "mset (concat (map (\<lambda>y. map (\<lambda>x. f x y) (x # xs)) ys))
        = mset (map (f x) ys) + mset (concat (map (\<lambda>y. map (\<lambda>x. f x y) xs) ys))"
    using mset_concat_head [of "f x" "\<lambda>y. map (\<lambda>x. f x y) xs" ys] by simp
  then show ?case using Cons.IH by simp
qed

lemma mset_melt: "mset (melt_rows f) = mset (tidy_row_major f)"
proof -
  have "mset (melt_rows f)
        = mset (concat (map (\<lambda>c. map (\<lambda>r. (fst (snd r), snd c, snd (snd r) ! fst c)) (body f))
                            (range_index (labels f))))"
    unfolding melt_rows_def by (simp add: case_prod_unfold)
  also have "\<dots> = mset (concat (map (\<lambda>r. map (\<lambda>c. (fst (snd r), snd c, snd (snd r) ! fst c))
                                              (range_index (labels f)))
                                  (body f)))"
    by (rule mset_concat_swap)
  also have "\<dots> = mset (tidy_row_major f)"
    unfolding tidy_row_major_def by (simp add: case_prod_unfold)
  finally show ?thesis .
qed

text \<open>
  C6, as amended. The melt returns unless a column is named \<^verbatim>\<open>Interest\<close>. The long
  table it returns has one row for each pair of a row and a value column of the merged
  table, so its length is the product of the two counts, and it holds the same tuples
  as the row by row enumeration; but its order is column by column: the tuple of row
  \<open>i\<close> and column \<open>j\<close> stands at position \<open>j * rows + i\<close>.
\<close>

theorem melt_column_major:
  "(''Interest'' \<notin> set (columns f) \<longrightarrow> melt f = Inr (melt_rows f)) \<and>
   (melt f = Inr long \<longrightarrow>
      length long = length (body f) * length (labels f) \<and>
      mset long = mset (tidy_row_major f) \<and>
      (i < length (body f) \<and> j < length (labels f) \<longrightarrow>
         long ! (j * length (body f) + i)
           = (row_time (body f ! i), labels f ! j, snd (snd (body f ! i)) ! j)))"
proof (intro conjI impI)
  assume "''Interest'' \<notin> set (columns f)"
  then show "melt f = Inr (melt_rows f)" by (simp add: melt_def)
next
  assume "melt f = Inr long"
  then have l: "long = melt_rows f" by (simp add: melt_def split: if_splits)
  show "length long = length (body f) * length (labels f)" unfolding l by (rule length_melt)
  show "mset long = mset (tidy_row_major f)" unfolding l by (rule mset_melt)
  assume "i < length (body f) \<and> j < length (labels f)"
  then show "long ! (j * length (body f) + i)
           = (row_time (body f ! i), labels f ! j, snd (snd (body f ! i)) ! j)"
    unfolding l by (simp add: nth_melt)
qed

text \<open>
  The claim as stated fails on two rows and two columns: the melt is not the enumeration
  that takes the rows first.
\<close>

theorem melt_row_major_counterexample:
  "melt merged_ab \<noteq> Inr (tidy_row_major merged_ab)"
  by code_simp

lemma melt_merged_ab:
  "melt merged_ab = Inr [((24241, 0), ''A'', Some 2), ((24242, 0), ''A'', Some 3),
                         ((24241, 0), ''B'', Some 10), ((24242, 0), ''B'', Some 20)]"
  by code_simp

theorem melt_column_major_witness:
  "melt merged_ab = Inr [((24241, 0), ''A'', Some 2), ((24242, 0), ''A'', Some 3),
                         ((24241, 0), ''B'', Some 10), ((24242, 0), ''B'', Some 20)] \<and>
   mset [((24241, 0), ''A'', Some 2), ((24242, 0), ''A'', Some 3),
         ((24241, 0), ''B'', Some 10), ((24242, 0), ''B'', Some 20)]
     = mset (tidy_row_major merged_ab) \<and>
   tidy_row_major merged_ab ! (1 * 2 + 0) = ((24242, 0), ''A'', Some 3)"
proof -
  let ?long = "[((24241, 0), ''A'', Some 2), ((24242, 0), ''A'', Some 3),
                ((24241, 0), ''B'', Some 10), ((24242, 0), ''B'', Some 20)]
               :: (date \<times> string \<times> int option) list"
  have r: "tidy_row_major merged_ab ! (1 * 2 + 0) = ((24242, 0), ''A'', Some 3)"
    by code_simp
  have "mset ?long = mset (tidy_row_major merged_ab)"
    using melt_column_major [of merged_ab ?long 0 1] melt_merged_ab by blast
  then show ?thesis using melt_merged_ab r by blast
qed

lemma range_index_map_cong:
  assumes "\<And>j x. j < length xs \<Longrightarrow> x = xs ! j \<Longrightarrow> F j x = H x"
  shows "map (\<lambda>(j, x). F j x) (range_index xs) = map H xs"
proof -
  have "map (\<lambda>(j, x). F j x) (range_index xs) = map (\<lambda>p. H (snd p)) (range_index xs)"
    using assms by (intro map_cong refl) (auto simp: in_range_index)
  also have "\<dots> = map H (map snd (range_index xs))" by simp
  finally show ?thesis unfolding map_snd_range_index .
qed

lemma melt_keys:
  "map (\<lambda>(t, name, v). (t, name)) (melt_rows m)
   = concat (map (\<lambda>name. map (\<lambda>t. (t, name)) (timestamps m)) (labels m))"
proof -
  have "map (\<lambda>(t, name, v). (t, name)) (melt_rows m)
        = concat (map (\<lambda>(j, name). map (\<lambda>t. (t, name)) (timestamps m)) (range_index (labels m)))"
    unfolding melt_rows_def timestamps_def
    by (simp add: map_concat comp_def case_prod_unfold)
  also have "\<dots> = concat (map (\<lambda>name. map (\<lambda>t. (t, name)) (timestamps m)) (labels m))"
    by (subst range_index_map_cong [where H = "\<lambda>name. map (\<lambda>t. (t, name)) (timestamps m)"]) simp_all
  finally show ?thesis .
qed

lemma set_grid:
  "set (concat (map (\<lambda>n. map (\<lambda>t. (t, n)) ts) ns)) = set ts \<times> set ns"
  by auto

lemma distinct_grid:
  "distinct ts \<Longrightarrow> distinct ns \<Longrightarrow> distinct (concat (map (\<lambda>n. map (\<lambda>t. (t, n)) ts) ns))"
proof (induction ns)
  case Nil
  show ?case by simp
next
  case (Cons n ns)
  have "distinct (map (\<lambda>t. (t, n)) ts)"
    using Cons.prems(1) by (simp add: distinct_map inj_on_def)
  moreover have "set (map (\<lambda>t. (t, n)) ts) \<inter> set (concat (map (\<lambda>n. map (\<lambda>t. (t, n)) ts) ns)) = {}"
    unfolding set_grid using Cons.prems(2) by auto
  ultimately show ?case using Cons by simp
qed

lemma find_unique_key:
  "distinct (map k xs) \<Longrightarrow> x \<in> set xs \<Longrightarrow> find (\<lambda>y. k y = k x) xs = Some x"
  by (induction xs) (auto simp: rev_image_eqI)

lemma in_melt:
  assumes "(i, t, vs) \<in> set (body m)" "j < length (labels m)"
  shows "(t, labels m ! j, vs ! j) \<in> set (melt_rows m)"
proof -
  have "(j, labels m ! j) \<in> set (range_index (labels m))"
    using assms(2) by (simp add: in_range_index)
  then show ?thesis unfolding melt_rows_def using assms(1) by force
qed

lemma lookup_melt:
  assumes "distinct (labels m)" "distinct (timestamps m)"
    and "(i, t, vs) \<in> set (body m)" "j < length (labels m)"
  shows "lookup_interest (melt_rows m) t (labels m ! j) = vs ! j"
proof -
  let ?k = "\<lambda>y :: 'a \<times> string \<times> 'b option. (fst y, fst (snd y))"
  let ?x = "(t, labels m ! j, vs ! j)"
  have "map ?k (melt_rows m) = map (\<lambda>(t, name, v). (t, name)) (melt_rows m)"
    by (simp add: case_prod_unfold)
  then have d: "distinct (map ?k (melt_rows m))"
    unfolding melt_keys using assms(1,2) by (simp only: distinct_grid)
  have "find (\<lambda>y. ?k y = ?k ?x) (melt_rows m) = Some ?x"
    using d in_melt [OF assms(3,4)] by (rule find_unique_key)
  then have "find (\<lambda>y. fst y = t \<and> fst (snd y) = labels m ! j) (melt_rows m) = Some ?x"
    by simp
  then show ?thesis unfolding lookup_interest_def case_prod_unfold by simp
qed

lemma melt_names:
  assumes "body m \<noteq> []"
  shows "set (map (\<lambda>(t, name, v). name) (melt_rows m)) = set (labels m)"
proof -
  have "set (map (\<lambda>(t, name, v). name) (melt_rows m))
        = snd ` set (map (\<lambda>(t, name, v). (t, name)) (melt_rows m))"
    by (simp add: image_image case_prod_unfold)
  also have "\<dots> = snd ` (set (timestamps m) \<times> set (labels m))"
    unfolding melt_keys set_grid ..
  also have "\<dots> = set (labels m)"
    using assms by (simp add: snd_image_times timestamps_def)
  finally show ?thesis .
qed

lemma melt_times:
  assumes "labels m \<noteq> []"
  shows "set (map (\<lambda>(t, name, v). t) (melt_rows m)) = set (timestamps m)"
proof -
  have "set (map (\<lambda>(t, name, v). t) (melt_rows m))
        = fst ` set (map (\<lambda>(t, name, v). (t, name)) (melt_rows m))"
    by (simp add: image_image case_prod_unfold)
  also have "\<dots> = fst ` (set (timestamps m) \<times> set (labels m))"
    unfolding melt_keys set_grid ..
  also have "\<dots> = set (timestamps m)"
    using assms by (simp add: fst_image_times)
  finally show ?thesis .
qed

lemma sort_remdups_set: "set xs = set ys \<Longrightarrow> distinct ys \<Longrightarrow> sort (remdups xs) = sort ys"
proof -
  assume a: "set xs = set ys" "distinct ys"
  have "sort (remdups xs) = sorted_list_of_set (set xs)"
    by (simp add: sorted_list_of_set_sort_remdups)
  also have "\<dots> = sorted_list_of_set (set ys)" using a(1) by simp
  also have "\<dots> = sort (remdups ys)" by (simp add: sorted_list_of_set_sort_remdups)
  also have "\<dots> = sort ys" using a(2) by (simp add: distinct_remdups_id)
  finally show ?thesis .
qed

lemma column_view_by_name:
  assumes "\<And>j. j < length (labels f) \<Longrightarrow>
             map (\<lambda>(i, t, vs). vs ! j) (body f) = col (labels f ! j)"
  shows "column_view f = map (\<lambda>name. (name, col name)) (labels f)"
  unfolding column_view_def
  by (rule range_index_map_cong) (simp add: assms)

lemma pivot_melt:
  fixes m :: "('t::linorder, 'v) frame"
  assumes dl: "distinct (labels m)" and dt: "distinct (timestamps m)"
    and st: "sorted (timestamps m)" and ix: "map fst (body m) = [0..<length (body m)]"
    and ne: "body m \<noteq> []" and nl: "labels m \<noteq> []"
  shows "\<exists>g. pivot (melt_rows m) = Inr g \<and> same_table g m"
proof -
  let ?long = "melt_rows m"
  let ?names = "sort (labels m)"
  let ?col = "\<lambda>name. map (\<lambda>t. lookup_interest ?long t name) (timestamps m)"
  let ?rows = "map (\<lambda>t. (t, map (lookup_interest ?long t) ?names)) (timestamps m)"
  let ?g = "\<lparr>labels = ?names, body = range_index ?rows\<rparr>"
  have keys: "distinct (map (\<lambda>(t, name, v). (t, name)) ?long)"
    unfolding melt_keys using dt dl by (rule distinct_grid)
  have names: "sort (remdups (map (\<lambda>(t, name, v). name) ?long)) = ?names"
    using melt_names [OF ne] dl by (rule sort_remdups_set)
  have "sort (remdups (map (\<lambda>(t, name, v). t) ?long)) = sort (timestamps m)"
    using melt_times [OF nl] dt by (rule sort_remdups_set)
  then have ts: "sort (remdups (map (\<lambda>(t, name, v). t) ?long)) = timestamps m"
    using st by (simp add: sort_key_id_if_sorted)
  have p: "pivot ?long = Inr ?g"
    unfolding pivot_def Let_def names ts using keys by simp
  have index: "map fst (body ?g) = map fst (body m)"
    unfolding ix by (simp add: map_fst_range_index length_timestamps)
  have stamps: "timestamps ?g = timestamps m"
    unfolding timestamps_row_time [of ?g] by (simp add: times_range_index comp_def)
  have "map (\<lambda>(i, t, vs). vs ! j) (body ?g) = ?col (?names ! j)" if "j < length (labels ?g)" for j
  proof -
    have "map (\<lambda>(i, t, vs). vs ! j) (body ?g) = map (\<lambda>r. snd r ! j) (map snd (body ?g))"
      by (simp add: case_prod_unfold comp_def)
    also have "\<dots> = map (\<lambda>r. snd r ! j) ?rows"
      by (simp only: frame.simps map_snd_range_index)
    also have "\<dots> = ?col (?names ! j)"
      using that by (simp add: comp_def)
    finally show ?thesis .
  qed
  then have vg: "column_view ?g = map (\<lambda>name. (name, ?col name)) ?names"
    using column_view_by_name [of ?g ?col] by simp
  have "map (\<lambda>(i, t, vs). vs ! j) (body m) = ?col (labels m ! j)" if j: "j < length (labels m)" for j
  proof -
    have "map (\<lambda>(i, t, vs). vs ! j) (body m)
          = map (\<lambda>(i, t, vs). lookup_interest ?long t (labels m ! j)) (body m)"
      using lookup_melt [OF dl dt _ j] by (intro map_cong refl) auto
    also have "\<dots> = ?col (labels m ! j)"
      unfolding timestamps_def by (simp add: comp_def case_prod_unfold)
    finally show ?thesis .
  qed
  then have vm: "column_view m = map (\<lambda>name. (name, ?col name)) (labels m)"
    by (rule column_view_by_name)
  have "mset (column_view ?g) = mset (column_view m)"
    unfolding vg vm by simp
  then have "same_table ?g m"
    unfolding same_table_def using index stamps by simp
  with p show ?thesis by blast
qed

text \<open>
  C7, as amended. For a table merged from canonical series that has at least one row and
  no column named \<^verbatim>\<open>Interest\<close>, the melt returns, pivoting it succeeds and gives the
  table back: the same index, the same timestamps and the same labelled value columns,
  up to the order of the columns.
\<close>

theorem pivot_melt_round_trip:
  fixes m :: "('t::linorder, 'v) frame"
  assumes "\<forall>d\<in>set dfs. canonical_series d"
    and "merge_frames dfs = Inr m" and "body m \<noteq> []"
    and "''Interest'' \<notin> set (columns m)"
  shows "\<exists>long g. melt m = Inr long \<and> pivot long = Inr g \<and> same_table g m"
proof -
  obtain d ds acc where h: "dfs = d # ds" "merge_from d ds = Inr acc"
    "body m = reset_index (sort_values_time (body acc))"
    using merge_frames_Inr [OF assms(2)] by blast
  have l: "distinct (labels m) \<and> labels m \<noteq> []"
    using assms(1,2) by (rule merge_frames_labels_distinct)
  have dist: "distinct (timestamps x)" if "x \<in> set ds" for x
    using that assms(1) h(1) by (intro canonical_distinct) simp
  have "distinct (timestamps d)" using assms(1) h(1) by (intro canonical_distinct) simp
  then have "distinct (timestamps acc)"
    using timestamps_merge_from_distinct [of ds d acc] dist h(2) by simp
  moreover have t: "timestamps m = sort (timestamps acc)"
    using timestamps_sorted_body [OF h(3)] by (simp add: timestamps_row_time)
  ultimately have dt: "distinct (timestamps m)" by simp
  have st: "sorted (timestamps m)" unfolding t by simp
  have ix: "map fst (body m) = [0..<length (body m)]"
    unfolding h(3) by (simp add: index_reset_index)
  have "\<exists>g. pivot (melt_rows m) = Inr g \<and> same_table g m"
    using l dt st ix assms(3) by (intro pivot_melt) simp_all
  moreover have "melt m = Inr (melt_rows m)" using assms(4) by (simp add: melt_def)
  ultimately show ?thesis by blast
qed

text \<open>
  The claim as stated fails twice. A merged table without rows melts to nothing, the
  pivot of the melt has lost the value columns, and the two tables differ. A merged
  table with a column named \<^verbatim>\<open>Interest\<close> has no long table: the melt raises.
\<close>

theorem pivot_melt_empty_counterexample:
  "merge_frames [series_a, series_late] = Inr empty_a_late \<and>
   melt empty_a_late = Inr [] \<and>
   pivot ([] :: (date \<times> string \<times> int option) list) = Inr \<lparr>labels = [], body = []\<rparr> \<and>
   columns \<lparr>labels = [], body = [] :: (date, int option list) row list\<rparr> = [''Time''] \<and>
   columns empty_a_late = [''Time'', ''A'', ''Late''] \<and>
   \<not> same_table \<lparr>labels = [], body = []\<rparr> empty_a_late \<and>
   merge_frames [series_a, series_interest] = Inr interest_merged \<and>
   melt interest_merged = Inl MeltValueNameError"
proof -
  have 1: "merge_frames [series_a, series_late] = Inr empty_a_late" by code_simp
  have 2: "melt empty_a_late = Inr []" by code_simp
  have 3: "pivot ([] :: (date \<times> string \<times> int option) list) = Inr \<lparr>labels = [], body = []\<rparr>"
    by code_simp
  have 4: "columns \<lparr>labels = [], body = [] :: (date, int option list) row list\<rparr> = [''Time'']"
    by (simp add: columns_def)
  have 5: "columns empty_a_late = [''Time'', ''A'', ''Late'']"
    by (simp add: columns_def empty_a_late_def)
  have "column_view \<lparr>labels = [], body = [] :: (date, int option list) row list\<rparr> = []"
    by (simp add: column_view_def range_index_def)
  moreover have "column_view empty_a_late = [(''A'', []), (''Late'', [])]"
    by code_simp
  ultimately have 6: "\<not> same_table \<lparr>labels = [], body = []\<rparr> empty_a_late"
    unfolding same_table_def by simp
  have 7: "merge_frames [series_a, series_interest] = Inr interest_merged" by code_simp
  have 8: "melt interest_merged = Inl MeltValueNameError" by code_simp
  show ?thesis using 1 2 3 4 5 6 7 8 by blast
qed

lemma melt_merged_ba:
  "melt merged_ba = Inr [((24241, 0), ''B'', Some 10), ((24242, 0), ''B'', Some 20),
                         ((24241, 0), ''A'', Some 2), ((24242, 0), ''A'', Some 3)]"
  by code_simp

theorem pivot_melt_round_trip_witness:
  "merge_frames [series_b, series_a] = Inr merged_ba \<and>
   melt merged_ba = Inr [((24241, 0), ''B'', Some 10), ((24242, 0), ''B'', Some 20),
                         ((24241, 0), ''A'', Some 2), ((24242, 0), ''A'', Some 3)] \<and>
   pivot [((24241, 0), ''B'', Some 10), ((24242, 0), ''B'', Some 20),
          ((24241, 0), ''A'', Some 2), ((24242, 0), ''A'', Some 3)] = Inr merged_ab \<and>
   same_table merged_ab merged_ba"
proof -
  let ?long = "[((24241, 0), ''B'', Some 10), ((24242, 0), ''B'', Some 20),
                ((24241, 0), ''A'', Some 2), ((24242, 0), ''A'', Some 3)]
               :: (date \<times> string \<times> int option) list"
  have 1: "merge_frames [series_b, series_a] = Inr merged_ba" by code_simp
  have 2: "pivot ?long = Inr merged_ab" by code_simp
  have c: "\<forall>d\<in>set [series_b, series_a]. canonical_series d"
    by (simp add: canonical_series_ab)
  have b: "body merged_ba \<noteq> []" by (simp add: merged_ba_def)
  have i: "''Interest'' \<notin> set (columns merged_ba)"
    by (simp add: merged_ba_def columns_def)
  have "\<exists>long g. melt merged_ba = Inr long \<and> pivot long = Inr g \<and> same_table g merged_ba"
    using c 1 b i by (rule pivot_melt_round_trip)
  then have "same_table merged_ab merged_ba" unfolding melt_merged_ba using 2 by auto
  with 1 2 melt_merged_ba show ?thesis by blast
qed

end
